(* ===== verification/Prelude.thy ===== *)
theory Prelude
  imports Main "HOL-Library.Word"
begin

text \<open>
  Shared vocabulary of the development: the machine integer types of the C sources, byte order
  conversions, bounds-checked array stores, and generic facts on lists and words.
  Every array of the C code is a list; a store outside its bounds is undefined behaviour in C and
  is made visible as \<open>None\<close> by \<open>arr_set\<close>.
\<close>

unbundle bit_operations_syntax

section \<open>Collections of rewrite rules\<close>

named_theorems env_simps \<open>what the programs read of the current task\<close>
named_theorems run_simps \<open>definitions of the releases and exits of a main function\<close>

section \<open>Machine integers\<close>

type_synonym u8 = "8 word"
type_synonym u16 = "16 word"
type_synonym u32 = "32 word"
type_synonym u64 = "64 word"

text \<open>A 16-bit field in network byte order, as \<open>bpf_ntohs\<close> reads it on a little-endian host, and
  the expression \<open>((__u16)hi << 8) | lo\<close>.\<close>

definition be16 :: "u8 \<Rightarrow> u8 \<Rightarrow> u16" where
  "be16 hi lo = push_bit 8 (ucast hi) OR ucast lo"

text \<open>A 32-bit field as a little-endian host loads it from memory.\<close>

definition le32 :: "u8 \<Rightarrow> u8 \<Rightarrow> u8 \<Rightarrow> u8 \<Rightarrow> u32" where
  "le32 a b c d = ucast a OR push_bit 8 (ucast b) OR push_bit 16 (ucast c) OR push_bit 24 (ucast d)"

text \<open>The bytes of an unsigned integer in little-endian order, as \<open>fwrite\<close> of a packed struct
  stores them on such a host.\<close>

primrec le_bytes :: "nat \<Rightarrow> nat \<Rightarrow> u8 list" where
  "le_bytes 0 x = []"
| "le_bytes (Suc n) x = word_of_nat (x mod 256) # le_bytes n (x div 256)"

fun le_value :: "u8 list \<Rightarrow> nat" where
  "le_value [] = 0"
| "le_value (b # bs) = unat b + 256 * le_value bs"

lemma length_le_bytes [simp]: "length (le_bytes n x) = n"
  by (induction n arbitrary: x) auto

lemma le_value_le_bytes: "x < 256 ^ n \<Longrightarrow> le_value (le_bytes n x) = x"
proof (induction n arbitrary: x)
  case 0
  then show ?case by simp
next
  case (Suc n)
  then have "x div 256 < 256 ^ n" by (simp add: less_mult_imp_div_less mult.commute)
  with Suc.IH have "le_value (le_bytes n (x div 256)) = x div 256" by blast
  then show ?case by (simp add: unat_of_nat take_bit_eq_mod)
qed

section \<open>Lists as arrays\<close>

text \<open>A store to \<open>a[i]\<close>; \<open>None\<close> is a store outside the array.\<close>

definition arr_set :: "'a list \<Rightarrow> nat \<Rightarrow> 'a \<Rightarrow> 'a list option" where
  "arr_set a i v = (if i < length a then Some (a[i := v]) else None)"

lemma arr_set_in [simp]: "i < length a \<Longrightarrow> arr_set a i v = Some (a[i := v])"
  by (simp add: arr_set_def)

lemma arr_set_out [simp]: "length a \<le> i \<Longrightarrow> arr_set a i v = None"
  by (simp add: arr_set_def)

text \<open>A copy of a block to \<open>a + off\<close>, as \<open>memcpy\<close> makes it; \<open>None\<close> when it leaves the array.\<close>

definition arr_copy :: "'a list \<Rightarrow> nat \<Rightarrow> 'a list \<Rightarrow> 'a list option" where
  "arr_copy a off xs =
     (if off + length xs \<le> length a then Some (take off a @ xs @ drop (off + length xs) a) else None)"

lemma arr_copy_in [simp]:
  "off + length xs \<le> length a \<Longrightarrow> arr_copy a off xs = Some (take off a @ xs @ drop (off + length xs) a)"
  by (simp add: arr_copy_def)

lemma arr_copy_length: "arr_copy a off xs = Some a' \<Longrightarrow> length a' = length a"
  by (auto simp: arr_copy_def split: if_splits)

text \<open>Bytes \<open>off .. off + n - 1\<close> of a buffer.\<close>

definition slice :: "nat \<Rightarrow> nat \<Rightarrow> 'a list \<Rightarrow> 'a list" where
  "slice off n xs = take n (drop off xs)"

lemma length_slice [simp]: "off + n \<le> length xs \<Longrightarrow> length (slice off n xs) = n"
  by (simp add: slice_def)

lemma nth_slice [simp]: "i < n \<Longrightarrow> off + n \<le> length xs \<Longrightarrow> slice off n xs ! i = xs ! (off + i)"
  by (simp add: slice_def)

lemma slice_append_right [simp]: "slice (length xs + k) n (xs @ ys) = slice k n ys"
  by (simp add: slice_def)

lemma slice_append_left: "off + n \<le> length xs \<Longrightarrow> slice off n (xs @ ys) = slice off n xs"
  by (simp add: slice_def)

lemma take_slice_step: "take off xs @ slice off n xs = take (off + n) xs"
  by (simp add: slice_def take_add)

lemma map_filter_take_ex:
  "find P xs = Some x \<Longrightarrow> x \<in> set xs \<and> P x"
  by (induction xs) (auto split: if_splits)

lemma find_map_comp: "find P (map f xs) = map_option f (find (P \<circ> f) xs)"
  by (induction xs) auto

text \<open>The last \<open>n\<close> elements of a list: the contract of every bounded ring of the programs.\<close>

definition last_n :: "nat \<Rightarrow> 'a list \<Rightarrow> 'a list" where
  "last_n n xs = drop (length xs - n) xs"

lemma length_last_n [simp]: "length (last_n n xs) = min n (length xs)"
  by (simp add: last_n_def)

lemma last_n_all: "length xs \<le> n \<Longrightarrow> last_n n xs = xs"
  by (simp add: last_n_def)

lemma last_n_rev: "last_n n xs = rev (take n (rev xs))"
  by (simp add: last_n_def take_rev)

lemma last_n_snoc: "0 < n \<Longrightarrow> last_n n (last_n n xs @ [x]) = last_n n (xs @ [x])"
  by (cases n) (simp_all add: last_n_rev min_def)

section \<open>Words\<close>

lemma unat_ucast_u8_u16 [simp]: "unat (ucast (b :: u8) :: u16) = unat b"
  by (simp add: unsigned_ucast_eq take_bit_nat_eq_self order_less_le_trans [OF unsigned_less])

lemma unat_ucast_u8_u32 [simp]: "unat (ucast (b :: u8) :: u32) = unat b"
  by (simp add: unsigned_ucast_eq take_bit_nat_eq_self order_less_le_trans [OF unsigned_less])

lemma unat_ucast_u16_u32 [simp]: "unat (ucast (b :: u16) :: u32) = unat b"
  by (simp add: unsigned_ucast_eq take_bit_nat_eq_self order_less_le_trans [OF unsigned_less])

lemma unat_u8_lt: "unat (b :: u8) < 256"
  using unsigned_less [of b] by simp

lemma unat_u16_lt: "unat (b :: u16) < 65536"
  using unsigned_less [of b] by simp

lemma unat_u32_lt: "unat (b :: u32) < 4294967296"
  using unsigned_less [of b] by simp

lemma word_nat_cast_eq: "word_of_nat (unat w) = w"
  by simp

lemma unat_be16: "unat (be16 hi lo) = 256 * unat hi + unat lo"
proof -
  have d: "push_bit 8 (ucast hi :: u16) AND ucast lo = 0"
    by (rule bit_word_eqI) (auto simp: bit_simps dest: bit_imp_le_length)
  then have "push_bit 8 (ucast hi :: u16) OR ucast lo = push_bit 8 (ucast hi) + ucast lo"
    by (simp add: disjunctive_add_eq_or)
  moreover have "push_bit 8 (ucast hi :: u16) = ucast hi * 256"
    by (simp add: push_bit_eq_mult)
  moreover have "unat hi * 256 + unat lo < 65536"
    using unat_u8_lt [of hi] unat_u8_lt [of lo] by linarith
  ultimately show ?thesis
    by (simp add: be16_def unat_word_ariths)
qed

lemma sint_small_u32:
  assumes "unat (w :: u32) < 2 ^ 31"
  shows "sint w = int (unat w)"
proof -
  have u: "uint w = int (unat w)" by simp
  then have "uint w < 2 ^ 31" using assms by (metis of_nat_less_numeral_power_cancel_iff)
  then have "signed_take_bit 31 (uint w) = uint w"
    by (intro signed_take_bit_int_eq_self order.trans [OF _ uint_ge_0]) simp_all
  then show ?thesis by (simp add: sint_uint)
qed

lemma unat_u32_of_nat: "n < 2 ^ 32 \<Longrightarrow> unat (word_of_nat n :: u32) = n"
  by (simp add: unat_of_nat take_bit_nat_eq_self)

lemma u32_of_nat_less:
  "a < 2 ^ 32 \<Longrightarrow> b < 2 ^ 32 \<Longrightarrow> (word_of_nat a :: u32) < word_of_nat b \<longleftrightarrow> a < b"
  by (simp add: word_less_nat_alt unat_u32_of_nat)

lemma u32_of_nat_le:
  "a < 2 ^ 32 \<Longrightarrow> b < 2 ^ 32 \<Longrightarrow> (word_of_nat a :: u32) \<le> word_of_nat b \<longleftrightarrow> a \<le> b"
  by (simp add: word_le_nat_alt unat_u32_of_nat)

lemma ucast_u8_u32: "(ucast (b :: u8) :: u32) = word_of_nat (unat b)"
  by (simp add: word_unat_eq_iff unat_u32_of_nat order_less_trans [OF unat_u8_lt])

lemma ucast_u16_u32: "(ucast (b :: u16) :: u32) = word_of_nat (unat b)"
  by (simp add: word_unat_eq_iff unat_u32_of_nat order_less_trans [OF unat_u16_lt])

end
