(* ===== verification/C_Strings.thy ===== *)
theory C_Strings
  imports Prelude "HOL-Library.Sublist" "HOL-Library.Char_ord"
begin

text \<open>
  The C library's string functions, as far as the tools use them, on \<open>char list\<close>: NUL-terminated
  strings inside arrays, comparison, search, tokenising, \<open>atoi\<close>, and the conversions of the
  \<open>printf\<close> family. Characters are bytes.
\<close>

section \<open>NUL-terminated strings\<close>

abbreviation NUL :: char where "NUL \<equiv> CHR 0x00"
abbreviation newline :: char where "newline \<equiv> CHR 0x0A"

definition chr_of :: "u8 \<Rightarrow> char" where
  "chr_of b = char_of (unat b)"

definition byte_of :: "char \<Rightarrow> u8" where
  "byte_of c = word_of_nat (of_char c)"

lemma byte_of_chr_of [simp]: "byte_of (chr_of b) = b"
  by (simp add: byte_of_def chr_of_def unat_u8_lt take_bit_nat_eq_self)

lemma byte_of_NUL [simp]: "byte_of NUL = 0"
  by (simp add: byte_of_def)

lemma of_char_lt: "(of_char c :: nat) < 256"
  using of_char_mod_256 [of c, where ?'a = nat] by (metis mod_less_divisor zero_less_numeral)

lemma chr_of_byte_of [simp]: "chr_of (byte_of c) = c"
  by (simp add: byte_of_def chr_of_def unat_of_nat take_bit_eq_mod of_char_lt)

text \<open>The string that starts at the first element of an array.\<close>

definition cstr :: "char list \<Rightarrow> string" where
  "cstr a = takeWhile (\<lambda>c. c \<noteq> NUL) a"

lemma cstr_Nil [simp]: "cstr [] = []"
  by (simp add: cstr_def)

lemma cstr_Cons [simp]: "cstr (c # a) = (if c = NUL then [] else c # cstr a)"
  by (simp add: cstr_def)

lemma cstr_append_NUL: "NUL \<notin> set s \<Longrightarrow> cstr (s @ NUL # r) = s"
  by (induction s) auto

lemma cstr_append: "NUL \<notin> set s \<Longrightarrow> cstr (s @ r) = s @ cstr r"
  by (induction s) auto

lemma cstr_id: "NUL \<notin> set s \<Longrightarrow> cstr s = s"
  by (induction s) auto

lemma cstr_replicate_NUL [simp]: "cstr (replicate n NUL) = []"
  by (cases n) simp_all

lemma NUL_notin_cstr [simp]: "NUL \<notin> set (cstr a)"
  by (induction a) auto

lemma length_cstr_le: "length (cstr a) \<le> length a"
  by (simp add: cstr_def length_takeWhile_le)

lemma length_cstr_less: "NUL \<in> set a \<Longrightarrow> length (cstr a) < length a"
  by (induction a) auto

lemma cstr_decomp: "NUL \<in> set a \<Longrightarrow> \<exists>r. a = cstr a @ NUL # r"
  by (induction a) auto

lemma nth_length_cstr: "NUL \<in> set a \<Longrightarrow> a ! length (cstr a) = NUL"
  by (induction a) auto

section \<open>Comparison and search\<close>

text \<open>\<open>strncmp(s, p, n) == 0\<close> for a literal \<open>p\<close> of length \<open>n\<close>.\<close>

definition has_prefix :: "string \<Rightarrow> string \<Rightarrow> bool" where
  "has_prefix p s = (take (length p) s = p)"

lemma has_prefix_append [simp]: "has_prefix p (p @ s)"
  by (simp add: has_prefix_def)

lemma has_prefix_iff: "has_prefix p s = prefix p s"
  by (auto simp: has_prefix_def prefix_def) (metis append_take_drop_id)

definition to_lower :: "char \<Rightarrow> char" where
  "to_lower c = (let n = of_char c :: nat in
     if 65 \<le> n \<and> n \<le> 90 then char_of (n + 32) else c)"

definition strcaseeq :: "string \<Rightarrow> string \<Rightarrow> bool" where
  "strcaseeq a b = (map to_lower a = map to_lower b)"

text \<open>\<open>strstr\<close>: the suffix that starts at the first occurrence, if there is one.\<close>

fun strstr :: "string \<Rightarrow> string \<Rightarrow> string option" where
  "strstr [] p = (if p = [] then Some [] else None)"
| "strstr (c # s) p = (if has_prefix p (c # s) then Some (c # s) else strstr s p)"

lemma strstr_sublist: "strstr s p \<noteq> None \<longleftrightarrow> sublist p s"
proof (induction s)
  case Nil
  then show ?case by auto
next
  case (Cons c s)
  then show ?case by (auto simp: has_prefix_iff sublist_Cons_right)
qed

text \<open>The tokens \<open>strtok(buf, " ")\<close> yields one after the other.\<close>

fun split_tok :: "string \<Rightarrow> string \<Rightarrow> string list" where
  "split_tok acc [] = (if acc = [] then [] else [rev acc])"
| "split_tok acc (c # s) =
     (if c = CHR '' '' then (if acc = [] then split_tok [] s else rev acc # split_tok [] s)
      else split_tok (c # acc) s)"

definition strtok_all :: "string \<Rightarrow> string list" where
  "strtok_all s = split_tok [] s"

lemma split_tok_word:
  "CHR '' '' \<notin> set w \<Longrightarrow>
   split_tok acc (w @ s) = split_tok (rev w @ acc) s"
  by (induction w arbitrary: acc) auto

lemma strtok_all_word_end: "CHR '' '' \<notin> set w \<Longrightarrow> w \<noteq> [] \<Longrightarrow> strtok_all w = [w]"
  using split_tok_word [of w "[]" "[]"] by (simp add: strtok_all_def)

lemma strtok_all_word_space:
  "CHR '' '' \<notin> set w \<Longrightarrow> w \<noteq> [] \<Longrightarrow> strtok_all (w @ CHR '' '' # s) = w # strtok_all s"
  using split_tok_word [of w "[]" "CHR '' '' # s"] by (simp add: strtok_all_def)

lemma strtok_all_space [simp]: "strtok_all (CHR '' '' # s) = strtok_all s"
  by (simp add: strtok_all_def)

lemma strtok_all_Nil [simp]: "strtok_all [] = []"
  by (simp add: strtok_all_def)

lemma split_tok_props:
  "CHR '' '' \<notin> set acc \<Longrightarrow> t \<in> set (split_tok acc s) \<Longrightarrow> t \<noteq> [] \<and> CHR '' '' \<notin> set t"
  by (induction acc s rule: split_tok.induct) (auto split: if_splits)

lemma split_tok_chars: "t \<in> set (split_tok acc s) \<Longrightarrow> set t \<subseteq> set acc \<union> set s"
  by (induction acc s rule: split_tok.induct) (auto split: if_splits)

lemma strtok_all_props:
  "t \<in> set (strtok_all s) \<Longrightarrow> t \<noteq> [] \<and> CHR '' '' \<notin> set t \<and> set t \<subseteq> set s"
  unfolding strtok_all_def using split_tok_props [of "[]" t s] split_tok_chars [of t "[]" s] by auto

section \<open>Numbers in decimal and hexadecimal\<close>

definition digit_char :: "nat \<Rightarrow> char" where
  "digit_char d = char_of (48 + d)"

fun udec :: "nat \<Rightarrow> string" where
  "udec n = (if n < 10 then [digit_char n] else udec (n div 10) @ [digit_char (n mod 10)])"

declare udec.simps [simp del]

definition hex_char :: "nat \<Rightarrow> char" where
  "hex_char d = (if d < 10 then char_of (48 + d) else char_of (87 + d))"

fun uhex :: "nat \<Rightarrow> string" where
  "uhex n = (if n < 16 then [hex_char n] else uhex (n div 16) @ [hex_char (n mod 16)])"

declare uhex.simps [simp del]

text \<open>Left- and right-justified fields, \<open>%-Ns\<close> and \<open>%Ns\<close>, and zero padding \<open>%0Nx\<close>.\<close>

definition padr :: "nat \<Rightarrow> string \<Rightarrow> string" where
  "padr w s = s @ replicate (w - length s) CHR '' ''"

definition padl :: "nat \<Rightarrow> string \<Rightarrow> string" where
  "padl w s = replicate (w - length s) CHR '' '' @ s"

definition padz :: "nat \<Rightarrow> string \<Rightarrow> string" where
  "padz w s = replicate (w - length s) CHR ''0'' @ s"

abbreviation dec32 :: "'a::len word \<Rightarrow> string" where
  "dec32 w \<equiv> udec (unat w)"

text \<open>\<open>%d\<close> of an \<open>int\<close>.\<close>

definition sdec :: "32 word \<Rightarrow> string" where
  "sdec w = (if sint w < 0 then ''-'' @ udec (nat (- sint w)) else udec (nat (sint w)))"

definition is_digit :: "char \<Rightarrow> bool" where
  "is_digit c = (48 \<le> (of_char c :: nat) \<and> (of_char c :: nat) \<le> 57)"

fun dec_value :: "nat \<Rightarrow> string \<Rightarrow> nat" where
  "dec_value a [] = a"
| "dec_value a (c # s) =
     (if is_digit c then dec_value (10 * a + (of_char c - 48)) s else a)"

definition is_space :: "char \<Rightarrow> bool" where
  "is_space c = (c = CHR '' '' \<or> (9 \<le> (of_char c :: nat) \<and> (of_char c :: nat) \<le> 13))"

text \<open>\<open>strtol(s, NULL, 10)\<close> with a 64-bit \<open>long\<close>: it saturates.\<close>

definition strtol10 :: "string \<Rightarrow> int" where
  "strtol10 s =
     (case dropWhile is_space s of
        [] \<Rightarrow> 0
      | c # t \<Rightarrow>
          if c = CHR ''-'' then max (- (2 ^ 63)) (- int (dec_value 0 t))
          else if c = CHR ''+'' then min (2 ^ 63 - 1) (int (dec_value 0 t))
          else min (2 ^ 63 - 1) (int (dec_value 0 (c # t))))"

text \<open>\<open>atoi\<close> as the C libraries of the targets have it: \<open>(int) strtol(s, NULL, 10)\<close>.\<close>

definition atoi :: "string \<Rightarrow> 32 word" where
  "atoi s = word_of_int (strtol10 s)"

lemma of_char_digit_char [simp]: "d < 10 \<Longrightarrow> (of_char (digit_char d) :: nat) = 48 + d"
  by (simp add: digit_char_def)

lemma is_digit_digit_char [simp]: "d < 10 \<Longrightarrow> is_digit (digit_char d)"
  by (simp add: is_digit_def)

lemma is_digit_not_special:
  "is_digit c \<Longrightarrow> c \<noteq> NUL \<and> c \<noteq> CHR '' '' \<and> c \<noteq> CHR ''-'' \<and> c \<noteq> CHR ''+'' \<and> \<not> is_space c"
  by (auto simp: is_digit_def is_space_def)

lemma udec_digits: "c \<in> set (udec n) \<Longrightarrow> is_digit c"
proof (induction n rule: udec.induct)
  case (1 n)
  then show ?case
    by (cases "n < 10") (auto simp: udec.simps [of n])
qed

lemma udec_nonempty [simp]: "udec n \<noteq> []"
  by (simp add: udec.simps [of n])

lemma dec_value_append:
  "(\<forall>c \<in> set s. is_digit c) \<Longrightarrow> dec_value a (s @ t) = dec_value (dec_value a s) t"
  by (induction s arbitrary: a) auto

lemma dec_value_udec: "dec_value 0 (udec n) = n"
proof (induction n rule: udec.induct)
  case (1 n)
  show ?case
  proof (cases "n < 10")
    case True
    then show ?thesis by (simp add: udec.simps [of n])
  next
    case False
    then have "udec n = udec (n div 10) @ [digit_char (n mod 10)]"
      by (simp add: udec.simps [of n])
    then show ?thesis
      using 1 False udec_digits by (simp add: dec_value_append)
  qed
qed

lemma strtol10_udec: "n < 2 ^ 63 \<Longrightarrow> strtol10 (udec n) = int n"
proof -
  assume n: "n < 2 ^ 63"
  obtain c t where ct: "udec n = c # t" by (cases "udec n") auto
  then have d: "is_digit c" using udec_digits [of c n] by simp
  then have "dropWhile is_space (udec n) = c # t"
    using is_digit_not_special ct by simp
  moreover have "dec_value 0 (c # t) = n" using dec_value_udec [of n] ct by simp
  ultimately show ?thesis
    using n is_digit_not_special [OF d] by (simp add: strtol10_def)
qed

lemma atoi_udec: "n < 2 ^ 32 \<Longrightarrow> atoi (udec n) = word_of_nat n"
  by (simp add: atoi_def strtol10_udec)

lemma udec_inj: "udec m = udec n \<Longrightarrow> m = n"
  by (metis dec_value_udec)

lemma udec_no_space: "CHR '' '' \<notin> set (udec n)" "NUL \<notin> set (udec n)"
  using udec_digits is_digit_not_special by blast+

lemma length_udec_bound: "n < 10 ^ k \<Longrightarrow> 0 < k \<Longrightarrow> length (udec n) \<le> k"
proof (induction k arbitrary: n)
  case 0
  then show ?case by simp
next
  case (Suc k)
  show ?case
  proof (cases "n < 10")
    case True
    then show ?thesis by (simp add: udec.simps [of n])
  next
    case False
    with Suc.prems have k: "0 < k" by (cases k) auto
    have "n div 10 < 10 ^ k" using Suc.prems by (simp add: less_mult_imp_div_less mult.commute)
    with Suc.IH k have "length (udec (n div 10)) \<le> k" by blast
    with False show ?thesis by (simp add: udec.simps [of n])
  qed
qed

end
