(* ===== verification/Bpf_Env.thy ===== *)
theory Bpf_Env
  imports C_Strings
begin

text \<open>
  The environment in which the eBPF programs run. What the kernel decides is an argument of every
  handler: the results of the helper calls of one invocation are the fields of a
  \<open>probe_env\<close> record, so each theorem holds for all of them. A handler is a function from its
  environment and the contents of its maps to the new contents and the list of events it submits
  to the ring buffer. The interfaces that several tools share are the locales of this theory.
\<close>

section \<open>Helper calls\<close>

text \<open>
  \<open>ktime_ns k\<close> is the result of the \<open>k\<close>-th \<open>bpf_ktime_get_ns\<close> of the invocation and
  \<open>map_ok k\<close> tells whether its \<open>k\<close>-th \<open>bpf_map_update_elem\<close> succeeded (a full map
  rejects a new key). \<open>reserve k\<close> is the result of the \<open>k\<close>-th
  \<open>bpf_ringbuf_reserve\<close>: \<open>None\<close> when the buffer is full, otherwise the reserved record with
  whatever the memory held before, for the helper does not clear it. \<open>cur_comm\<close> is the byte
  array \<open>bpf_get_current_comm\<close> stores.
\<close>

record 'e probe_env =
  ktime_ns :: "nat \<Rightarrow> u64"
  pid_tgid :: u64
  uid_gid :: u64
  cur_comm :: "char list"
  reserve :: "nat \<Rightarrow> 'e option"
  map_ok :: "nat \<Rightarrow> bool"

text \<open>\<open>bpf_get_current_pid_tgid() >> 32\<close> and \<open>& 0xFFFFFFFF\<close>, and the two halves of
  \<open>bpf_get_current_uid_gid()\<close>.\<close>

definition cur_pid :: "('e, 'z) probe_env_scheme \<Rightarrow> u32" where
  "cur_pid env = ucast (drop_bit 32 (pid_tgid env))"

definition cur_tid :: "('e, 'z) probe_env_scheme \<Rightarrow> u32" where
  "cur_tid env = ucast (pid_tgid env AND 0xFFFFFFFF)"

definition cur_uid :: "('e, 'z) probe_env_scheme \<Rightarrow> u32" where
  "cur_uid env = ucast (uid_gid env AND 0xFFFFFFFF)"

definition cur_gid :: "('e, 'z) probe_env_scheme \<Rightarrow> u32" where
  "cur_gid env = ucast (drop_bit 32 (uid_gid env))"

declare cur_pid_def [env_simps] cur_tid_def [env_simps] cur_uid_def [env_simps] cur_gid_def [env_simps]

lemma ucast_low_half: "(ucast (x AND 0xFFFFFFFF) :: u32) = ucast (x :: u64)"
proof (rule bit_word_eqI)
  fix n assume "n < LENGTH(32)"
  then have "bit (0xFFFFFFFF :: u64) n"
    using bit_mask_iff [of 32 n, where ?'a = u64] by (simp add: mask_eq_exp_minus_1)
  then show "bit (ucast (x AND 0xFFFFFFFF) :: u32) n = bit (ucast x :: u32) n"
    by (simp add: bit_simps)
qed

text \<open>Both ways the sources write the user id, with a mask or with a cast, agree.\<close>

lemma cur_uid_cast: "cur_uid env = ucast (uid_gid env)"
  by (simp add: cur_uid_def ucast_low_half)

text \<open>A hash or array map is a partial function. An update that the kernel rejects leaves it
  unchanged; a delete of an absent key has no effect.\<close>

definition bpf_map_update :: "bool \<Rightarrow> 'k \<Rightarrow> 'v \<Rightarrow> ('k \<rightharpoonup> 'v) \<Rightarrow> ('k \<rightharpoonup> 'v)" where
  "bpf_map_update ok k v m = (if ok then m(k \<mapsto> v) else m)"

definition bpf_map_delete :: "'k \<Rightarrow> ('k \<rightharpoonup> 'v) \<Rightarrow> ('k \<rightharpoonup> 'v)" where
  "bpf_map_delete k m = m(k := None)"

lemma map_update_simps [simp]:
  "bpf_map_update True k v m = m(k \<mapsto> v)"
  "bpf_map_update False k v m = m"
  "k' \<noteq> k \<Longrightarrow> bpf_map_update ok k v m k' = m k'"
  by (simp_all add: bpf_map_update_def)

lemma map_delete_simps [simp]:
  "bpf_map_delete k m k = None"
  "k' \<noteq> k \<Longrightarrow> bpf_map_delete k m k' = m k'"
  by (simp_all add: bpf_map_delete_def)

text \<open>The contents of a fresh \<open>BPF_MAP_TYPE_ARRAY\<close> with one entry.\<close>

definition array_map1 :: "'v \<Rightarrow> (u32 \<rightharpoonup> 'v)" where
  "array_map1 v = [0 \<mapsto> v]"

section \<open>Memory helpers\<close>

text \<open>\<open>__builtin_memcpy(dst, src, n)\<close> within the arrays.\<close>

definition memcpy_into :: "'a list \<Rightarrow> 'a list \<Rightarrow> nat \<Rightarrow> 'a list" where
  "memcpy_into dst src n = take n src @ drop n dst"

lemma length_memcpy_into [simp]:
  "n \<le> length src \<Longrightarrow> n \<le> length dst \<Longrightarrow> length (memcpy_into dst src n) = length dst"
  by (simp add: memcpy_into_def)

text \<open>\<open>bpf_probe_read_kernel_str(dst, sizeof(dst), src)\<close>: at most the size of the array with
  the terminator; the bytes behind the terminator keep their old contents.\<close>

definition read_str_into :: "char list \<Rightarrow> char list \<Rightarrow> char list" where
  "read_str_into dst src =
     (let s = take (length dst - 1) (cstr src) @ [NUL] in s @ drop (length s) dst)"

lemma length_read_str_into [simp]: "dst \<noteq> [] \<Longrightarrow> length (read_str_into dst src) = length dst"
  by (cases dst) (auto simp: read_str_into_def Let_def min_def)

lemma cstr_read_str_into: "cstr (read_str_into dst src) = take (length dst - 1) (cstr src)"
proof -
  have "NUL \<notin> set (take (length dst - 1) (cstr src))"
    using NUL_notin_cstr [of src] by (metis in_set_takeD)
  then show ?thesis by (simp add: read_str_into_def Let_def cstr_append_NUL)
qed

section \<open>Runs\<close>

text \<open>A trace of invocations: the state is threaded through, the submitted events accumulate.\<close>

fun run_probe :: "('x \<Rightarrow> 's \<Rightarrow> 's \<times> 'e list) \<Rightarrow> 's \<Rightarrow> 'x list \<Rightarrow> 's \<times> 'e list" where
  "run_probe step s [] = (s, [])"
| "run_probe step s (x # xs) =
     (let (s1, es1) = step x s; (s2, es2) = run_probe step s1 xs in (s2, es1 @ es2))"

lemma fst_run_probe_Cons [simp]:
  "fst (run_probe step s (x # xs)) = fst (run_probe step (fst (step x s)) xs)"
  by (simp add: case_prod_unfold Let_def)

lemma snd_run_probe_Cons [simp]:
  "snd (run_probe step s (x # xs)) = snd (step x s) @ snd (run_probe step (fst (step x s)) xs)"
  by (simp add: case_prod_unfold Let_def)

lemma fst_run_probe_snoc:
  "fst (run_probe step s (xs @ [x])) = fst (step x (fst (run_probe step s xs)))"
  by (induction xs arbitrary: s) (simp_all del: run_probe.simps(2) add: run_probe.simps(1))

declare run_probe.simps(2) [simp del]

text \<open>The invocations of a trace that submitted an event.\<close>

fun emitting :: "('x \<Rightarrow> 's \<Rightarrow> 's \<times> 'e list) \<Rightarrow> 's \<Rightarrow> 'x list \<Rightarrow> 'x list" where
  "emitting step s [] = []"
| "emitting step s (x # xs) =
     (if snd (step x s) = [] then [] else [x]) @ emitting step (fst (step x s)) xs"

lemma set_emitting: "set (emitting step s xs) \<subseteq> set xs"
  by (induction xs arbitrary: s) auto

section \<open>Interfaces\<close>

text \<open>A handler with an invariant on its maps and a guarantee on every event it submits, under what
  the kernel promises about one invocation.\<close>

locale probe_guarantee =
  fixes step :: "'x \<Rightarrow> 's \<Rightarrow> 's \<times> 'e list"
    and adm :: "'x \<Rightarrow> bool"
    and inv :: "'s \<Rightarrow> bool"
    and good :: "'e \<Rightarrow> bool"
  assumes step_inv: "inv s \<Longrightarrow> adm x \<Longrightarrow> inv (fst (step x s))"
    and step_good: "inv s \<Longrightarrow> adm x \<Longrightarrow> e \<in> set (snd (step x s)) \<Longrightarrow> good e"
begin

lemma run_inv: "inv s \<Longrightarrow> \<forall>x \<in> set xs. adm x \<Longrightarrow> inv (fst (run_probe step s xs))"
  by (induction xs arbitrary: s) (auto simp: run_probe.simps(1) step_inv)

lemma run_good:
  "inv s \<Longrightarrow> \<forall>x \<in> set xs. adm x \<Longrightarrow> e \<in> set (snd (run_probe step s xs)) \<Longrightarrow> good e"
  by (induction xs arbitrary: s) (auto simp: run_probe.simps(1) intro: step_inv step_good)

text \<open>Every event of a run comes from one of its invocations, in a state that satisfies the invariant.\<close>

lemma run_source:
  "inv s \<Longrightarrow> \<forall>x \<in> set xs. adm x \<Longrightarrow> e \<in> set (snd (run_probe step s xs)) \<Longrightarrow>
     \<exists>x s'. x \<in> set xs \<and> inv s' \<and> e \<in> set (snd (step x s'))"
proof (induction xs arbitrary: s)
  case Nil
  then show ?case by (simp add: run_probe.simps(1))
next
  case (Cons x xs)
  show ?case
  proof (cases "e \<in> set (snd (step x s))")
    case True
    then show ?thesis using Cons.prems(1) by (intro exI [of _ x] exI [of _ s]) simp
  next
    case False
    then show ?thesis using Cons.IH [of "fst (step x s)"] Cons.prems step_inv [of s x] by auto
  qed
qed

end

text \<open>A handler that remembers per key the time of the last report and stays silent for a while:
  the two binder probes keep such a map of callers.\<close>

locale dedup_window =
  fixes step :: "'x \<Rightarrow> 's \<Rightarrow> 's \<times> 'e list"
    and last_seen :: "'s \<Rightarrow> u32 \<Rightarrow> u64 option"
    and key :: "'x \<Rightarrow> u32"
    and time :: "'x \<Rightarrow> u64"
    and ok :: "'x \<Rightarrow> bool"
    and win :: u64
  assumes silent: "last_seen s (key x) = Some t \<Longrightarrow> time x - t < win \<Longrightarrow> snd (step x s) = []"
    and recorded: "snd (step x s) \<noteq> [] \<Longrightarrow> ok x \<Longrightarrow>
          last_seen (fst (step x s)) (key x) = Some (time x)"
    and kept: "last_seen (fst (step x s)) k = last_seen s k \<or>
          (k = key x \<and> last_seen (fst (step x s)) k = Some (time x))"
begin

lemma emitting_after:
  assumes "last_seen s k = Some t" and "\<forall>x \<in> set xs. t \<le> time x"
    and "sorted_wrt (\<lambda>x y. time x \<le> time y) xs"
    and "y \<in> set (emitting step s xs)" and "key y = k"
  shows "unat t + unat win \<le> unat (time y)"
  using assms
proof (induction xs arbitrary: s t)
  case Nil
  then show ?case by simp
next
  case (Cons x xs)
  show ?case
  proof (cases "y = x \<and> snd (step x s) \<noteq> []")
    case True
    then have "\<not> time x - t < win" using Cons.prems silent [of s x t] by auto
    moreover have "t \<le> time x" using Cons.prems by simp
    ultimately show ?thesis using True
      by (simp add: word_le_nat_alt not_less unat_sub)
  next
    case False
    with Cons.prems have y: "y \<in> set (emitting step (fst (step x s)) xs)"
      by (auto split: if_splits)
    have sorted: "sorted_wrt (\<lambda>x y. time x \<le> time y) xs" using Cons.prems by simp
    from kept [of x s k] show ?thesis
    proof
      assume "last_seen (fst (step x s)) k = last_seen s k"
      then show ?thesis using Cons.IH [of "fst (step x s)" t] Cons.prems y sorted by simp
    next
      assume n: "k = key x \<and> last_seen (fst (step x s)) k = Some (time x)"
      then have "last_seen (fst (step x s)) k = Some (time x)" by (rule conjunct2)
      moreover have "\<forall>z \<in> set xs. time x \<le> time z" using Cons.prems by simp
      ultimately have "unat (time x) + unat win \<le> unat (time y)"
        using Cons.IH [of "fst (step x s)" "time x"] Cons.prems(5) y sorted by blast
      moreover have "unat t \<le> unat (time x)" using Cons.prems by (simp add: word_le_nat_alt)
      ultimately show ?thesis by linarith
    qed
  qed
qed

text \<open>Two reports about one key are at least a window apart.\<close>

lemma emitting_spaced:
  assumes "sorted_wrt (\<lambda>x y. time x \<le> time y) xs" and "\<forall>x \<in> set xs. ok x"
  shows "sorted_wrt (\<lambda>x y. key x = key y \<longrightarrow> unat (time x) + unat win \<le> unat (time y))
           (emitting step s xs)"
  using assms
proof (induction xs arbitrary: s)
  case Nil
  then show ?case by simp
next
  case (Cons x xs)
  have IH: "sorted_wrt (\<lambda>x y. key x = key y \<longrightarrow> unat (time x) + unat win \<le> unat (time y))
      (emitting step (fst (step x s)) xs)"
    using Cons by simp
  show ?case
  proof (cases "snd (step x s) = []")
    case True
    with IH show ?thesis by simp
  next
    case False
    then have "last_seen (fst (step x s)) (key x) = Some (time x)"
      using recorded Cons.prems by simp
    then have "unat (time x) + unat win \<le> unat (time y)"
      if "y \<in> set (emitting step (fst (step x s)) xs)" "key y = key x" for y
      using emitting_after [of "fst (step x s)" "key x" "time x" xs y] Cons.prems that by simp
    with IH False show ?thesis by auto
  qed
qed

end

text \<open>A program with checked operations that implements an abstract one: \<open>run_steps\<close> stops at the
  first operation that fails.\<close>

fun run_steps :: "('k \<Rightarrow> 's \<Rightarrow> 's option) \<Rightarrow> 'k list \<Rightarrow> 's \<Rightarrow> 's option" where
  "run_steps step [] s = Some s"
| "run_steps step (k # ks) s = Option.bind (step k s) (run_steps step ks)"

locale simulation =
  fixes step :: "'k \<Rightarrow> 's \<Rightarrow> 's option"
    and astep :: "'k \<Rightarrow> 'a \<Rightarrow> 'a"
    and abs :: "'s \<Rightarrow> 'a"
    and inv :: "'s \<Rightarrow> bool"
  assumes sim: "inv s \<Longrightarrow> \<exists>s'. step k s = Some s' \<and> inv s' \<and> abs s' = astep k (abs s)"
begin

lemma run_sim:
  "inv s \<Longrightarrow> \<exists>s'. run_steps step ks s = Some s' \<and> inv s' \<and> abs s' = fold astep ks (abs s)"
proof (induction ks arbitrary: s)
  case Nil
  then show ?case by simp
next
  case (Cons k ks)
  then show ?case using sim [of s k] by fastforce
qed

end

text \<open>A bounded log: what a ring of fixed capacity holds.\<close>

locale bounded_log =
  fixes push :: "'e \<Rightarrow> 's \<Rightarrow> 's" and contents :: "'s \<Rightarrow> 'e list" and ok :: "'s \<Rightarrow> bool" and cap :: nat
  assumes cap_pos: "0 < cap"
    and push_ok: "ok s \<Longrightarrow> ok (push e s)"
    and push_contents: "ok s \<Longrightarrow> contents (push e s) = last_n cap (contents s @ [e])"
begin

lemma fold_push:
  assumes "ok s" and "contents s = last_n cap ys"
  shows "ok (fold push es s) \<and> contents (fold push es s) = last_n cap (ys @ es)"
  using assms
proof (induction es arbitrary: s ys)
  case Nil
  then show ?case by simp
next
  case (Cons e es)
  have "contents (push e s) = last_n cap (ys @ [e])"
    using Cons.prems cap_pos by (simp add: push_contents last_n_snoc)
  then show ?case using Cons.IH [of "push e s" "ys @ [e]"] Cons.prems(1) by (simp add: push_ok)
qed

end

end
