(* ===== verification/Execguard.thy ===== *)
theory Execguard
  imports Bpf_Env
begin

text \<open>
  \<open>execguard\<close>: the tracepoint program that counts executions per user and binary
  (\<open>execguard/execguard.bpf.c\<close>) and the user-space side that grades and prints them
  (\<open>execguard/execguard.c\<close>).
\<close>

section \<open>Kernel side\<close>

definition TASK_COMM_LEN :: nat where "TASK_COMM_LEN = 16"
definition PATH_LEN :: nat where "PATH_LEN = 128"
definition WINDOW_NS :: u64 where "WINDOW_NS = 60000000000"

record xg_event =
  xg_pid :: u32
  xg_ppid :: u32
  xg_uid :: u32
  xg_ns_inum :: u32
  xg_timestamp_ns :: u64
  xg_exec_count :: u32
  xg_comm :: "char list"
  xg_parent_comm :: "char list"
  xg_binary_path :: "char list"
  xg_cmdline :: "char list"
  xg_cmdline_len :: u32

record exec_key =
  key_uid :: u32
  key_binary_path :: "char list"

record exec_stat =
  window_start_ns :: u64
  stat_count :: u32

type_synonym exec_stats = "exec_key \<rightharpoonup> exec_stat"

text \<open>What the program reads of the current \<open>task_struct\<close>.\<close>

record xg_task =
  xt_real_parent_tgid :: u32
  xt_ns_inum :: u32
  xt_real_parent_comm :: "char list"

type_synonym xg_input = "xg_event probe_env \<times> xg_task"

text \<open>The path the program uses as the identity of the binary: the command name in a cleared
  array.\<close>

definition comm_as_path :: "char list \<Rightarrow> char list" where
  "comm_as_path comm = memcpy_into (replicate PATH_LEN NUL) comm TASK_COMM_LEN"

text \<open>The counter of one key: the \<open>stats\<close> map after the execution, and the count reported.\<close>

definition xg_count :: "bool \<Rightarrow> u64 \<Rightarrow> exec_key \<Rightarrow> exec_stats \<Rightarrow> exec_stats \<times> u32" where
  "xg_count ok now key stats =
     (case stats key of
        None \<Rightarrow>
          (bpf_map_update ok key \<lparr>window_start_ns = now, stat_count = 1\<rparr> stats, 1)
      | Some st \<Rightarrow>
          (let st' = (if WINDOW_NS < now - window_start_ns st
                      then st\<lparr>window_start_ns := now, stat_count := 1\<rparr>
                      else st\<lparr>stat_count := stat_count st + 1\<rparr>)
           in (stats(key \<mapsto> st'), stat_count st')))"

definition xg_key :: "xg_input \<Rightarrow> exec_key" where
  "xg_key x = \<lparr>key_uid = cur_uid (fst x), key_binary_path = comm_as_path (cur_comm (fst x))\<rparr>"

definition xg_handle_exec :: "xg_input \<Rightarrow> exec_stats \<Rightarrow> exec_stats \<times> xg_event list" where
  "xg_handle_exec x stats =
     (let env = fst x; task = snd x; now = ktime_ns env 0; uid = cur_uid env in
      case reserve env 0 of
        None \<Rightarrow> (stats, [])
      | Some e0 \<Rightarrow>
          (let e = e0\<lparr>
                 xg_timestamp_ns := now,
                 xg_pid := cur_pid env,
                 xg_ppid := xt_real_parent_tgid task,
                 xg_uid := uid,
                 xg_ns_inum := xt_ns_inum task,
                 xg_comm := cur_comm env,
                 xg_parent_comm := read_str_into (xg_parent_comm e0) (xt_real_parent_comm task),
                 xg_binary_path := comm_as_path (cur_comm env),
                 xg_cmdline := (xg_cmdline e0)[0 := NUL],
                 xg_cmdline_len := 0\<rparr>;
               (stats', n) = xg_count (map_ok env 0) now (xg_key x) stats
           in (stats', [e\<lparr>xg_exec_count := n\<rparr>])))"

subsection \<open>The reported count\<close>

text \<open>The executions the program saw of one key, oldest first, as their times.\<close>

definition xg_times :: "exec_key \<Rightarrow> xg_input list \<Rightarrow> u64 list" where
  "xg_times k xs =
     map (\<lambda>x. ktime_ns (fst x) 0) (filter (\<lambda>x. xg_key x = k \<and> reserve (fst x) 0 \<noteq> None) xs)"

text \<open>A counter entry is explained by the history: its count of executions, the last ones, all lie
  within a window of its start.\<close>

definition xg_explained :: "u64 list \<Rightarrow> exec_stat \<Rightarrow> bool" where
  "xg_explained ts st \<longleftrightarrow>
     (let n = unat (stat_count st); w = last_n n ts in
        1 \<le> n \<and> n \<le> length ts \<and> hd w = window_start_ns st \<and>
        (\<forall>t \<in> set w. t - window_start_ns st \<le> WINDOW_NS))"

definition xg_inv :: "xg_input list \<Rightarrow> exec_stats \<Rightarrow> bool" where
  "xg_inv xs stats \<longleftrightarrow> (\<forall>k st. stats k = Some st \<longrightarrow> xg_explained (xg_times k xs) st)"

lemma xg_explained_first: "xg_explained (ts @ [t]) \<lparr>window_start_ns = t, stat_count = 1\<rparr>"
  by (simp add: xg_explained_def last_n_def)

lemma last_n_Suc_snoc: "n \<le> length ts \<Longrightarrow> last_n (Suc n) (ts @ [t]) = last_n n ts @ [t]"
  by (simp add: last_n_def)

lemma xg_explained_next:
  assumes "xg_explained ts st" and "\<not> WINDOW_NS < t - window_start_ns st"
    and "length ts < 2 ^ 32 - 1"
  shows "xg_explained (ts @ [t]) (st\<lparr>stat_count := stat_count st + 1\<rparr>)"
proof -
  let ?n = "unat (stat_count st)"
  have n: "1 \<le> ?n" "?n \<le> length ts" and w: "hd (last_n ?n ts) = window_start_ns st"
    and b: "\<forall>u \<in> set (last_n ?n ts). u - window_start_ns st \<le> WINDOW_NS"
    using assms(1) by (auto simp: xg_explained_def Let_def)
  have s: "unat (stat_count st + 1) = Suc ?n"
    using n assms(3) by (simp add: unat_word_ariths)
  have ne: "last_n ?n ts \<noteq> []" using n by (simp add: last_n_def)
  have w1: "last_n (Suc ?n) (ts @ [t]) = last_n ?n ts @ [t]"
    using n by (simp add: last_n_Suc_snoc)
  show ?thesis
    using n w b ne assms(2)
    by (simp add: xg_explained_def s w1 Let_def hd_append not_less)
qed

lemma xg_times_snoc:
  "xg_times k (xs @ [x]) =
     xg_times k xs @ (if xg_key x = k \<and> reserve (fst x) 0 \<noteq> None then [ktime_ns (fst x) 0] else [])"
  by (simp add: xg_times_def)

lemma length_xg_times: "length (xg_times k xs) \<le> length xs"
  by (simp add: xg_times_def)

text \<open>One step keeps the invariant, and the count it reports is explained too.\<close>

lemma xg_step_explained:
  assumes "xg_inv xs stats" and "length xs < 2 ^ 32 - 1"
  shows "xg_inv (xs @ [x]) (fst (xg_handle_exec x stats)) \<and>
    (\<forall>e \<in> set (snd (xg_handle_exec x stats)).
       \<exists>st. stat_count st = xg_exec_count e \<and> xg_explained (xg_times (xg_key x) (xs @ [x])) st)"
proof (cases "reserve (fst x) 0")
  case None
  with assms show ?thesis by (auto simp: xg_handle_exec_def xg_inv_def xg_times_snoc)
next
  case (Some e0)
  let ?t = "ktime_ns (fst x) 0" and ?k = "xg_key x"
  have len: "length (xg_times ?k xs) < 2 ^ 32 - 1"
    using length_xg_times [of ?k xs] assms(2) by linarith
  have times: "xg_times ?k (xs @ [x]) = xg_times ?k xs @ [?t]"
    "k \<noteq> ?k \<Longrightarrow> xg_times k (xs @ [x]) = xg_times k xs" for k
    using Some by (auto simp: xg_times_snoc)
  obtain stats' n where c: "xg_count (map_ok (fst x) 0) ?t ?k stats = (stats', n)"
    by (cases "xg_count (map_ok (fst x) 0) ?t ?k stats")
  have frame: "k \<noteq> ?k \<Longrightarrow> stats' k = stats k" for k
    using c by (auto simp: xg_count_def Let_def split: option.splits)
  have "\<exists>st. stat_count st = n \<and> xg_explained (xg_times ?k xs @ [?t]) st \<and>
      (stats' ?k = None \<or> stats' ?k = Some st)"
  proof (cases "stats ?k")
    case None
    then show ?thesis using c
      by (intro exI [of _ "\<lparr>window_start_ns = ?t, stat_count = 1\<rparr>"])
        (auto simp: xg_count_def bpf_map_update_def xg_explained_first split: if_splits)
  next
    case st: (Some st)
    then have "xg_explained (xg_times ?k xs) st" using assms(1) by (simp add: xg_inv_def)
    note next_st = xg_explained_next [OF this _ len, of ?t]
    show ?thesis
    proof (cases "WINDOW_NS < ?t - window_start_ns st")
      case True
      then show ?thesis using c st xg_explained_first [of "xg_times ?k xs" ?t]
        by (intro exI [of _ "\<lparr>window_start_ns = ?t, stat_count = 1\<rparr>"])
          (auto simp: xg_count_def Let_def)
    next
      case False
      then show ?thesis using c st next_st
        by (intro exI [of _ "st\<lparr>stat_count := stat_count st + 1\<rparr>"])
          (auto simp: xg_count_def Let_def)
    qed
  qed
  then obtain st where st: "stat_count st = n" "xg_explained (xg_times ?k xs @ [?t]) st"
    "stats' ?k = None \<or> stats' ?k = Some st" by blast
  have "xg_inv (xs @ [x]) stats'"
    unfolding xg_inv_def
  proof (intro allI impI)
    fix k st' assume "stats' k = Some st'"
    then show "xg_explained (xg_times k (xs @ [x])) st'"
      using st times frame [of k] assms(1) by (cases "k = ?k") (auto simp: xg_inv_def)
  qed
  moreover have "xg_handle_exec x stats =
      (stats', [(snd (xg_handle_exec x stats) ! 0)]) \<and>
      xg_exec_count (snd (xg_handle_exec x stats) ! 0) = n"
    using Some c by (simp add: xg_handle_exec_def Let_def)
  ultimately show ?thesis using st times by (metis empty_iff fst_conv list.set insert_iff snd_conv)
qed

lemma xg_run_inv:
  "length xs < 2 ^ 32 \<Longrightarrow> xg_inv xs (fst (run_probe xg_handle_exec Map.empty xs))"
proof (induction xs rule: rev_induct)
  case Nil
  then show ?case by (simp add: xg_inv_def)
next
  case (snoc x xs)
  then show ?case using xg_step_explained [of xs "fst (run_probe xg_handle_exec Map.empty xs)" x]
    by (simp add: fst_run_probe_snoc)
qed

text \<open>C12: every count that \<open>execguard\<close> reports is real: an event with \<open>exec_count = n\<close>
  means that the last \<open>n\<close> executions it saw of the same user and command name, this one
  included, all happened within 60 seconds of the oldest of them. No rate alarm is raised by a
  stale or foreign counter, whatever the kernel does to the map updates.\<close>

theorem xg_count_sound:
  assumes "length xs < 2 ^ 32 - 1"
    and "e \<in> set (snd (xg_handle_exec x (fst (run_probe xg_handle_exec Map.empty xs))))"
  shows "\<exists>w. w = last_n (unat (xg_exec_count e)) (xg_times (xg_key x) (xs @ [x])) \<and>
    length w = unat (xg_exec_count e) \<and> w \<noteq> [] \<and> (\<forall>t \<in> set w. t - hd w \<le> WINDOW_NS)"
proof -
  have "xg_inv xs (fst (run_probe xg_handle_exec Map.empty xs))"
    using xg_run_inv [of xs] assms(1) by simp
  from xg_step_explained [OF this assms(1), of x] assms(2)
  obtain st where "stat_count st = xg_exec_count e"
    "xg_explained (xg_times (xg_key x) (xs @ [x])) st" by blast
  then show ?thesis
    by (auto simp: xg_explained_def Let_def simp flip: length_greater_0_conv)
qed

definition xg_sample :: "nat \<Rightarrow> u64 \<Rightarrow> xg_input" where
  "xg_sample c t =
     (\<lparr>ktime_ns = (\<lambda>_. t), pid_tgid = 0, uid_gid = 2000,
       cur_comm = replicate c (CHR ''i'') @ replicate (16 - c) NUL,
       reserve = (\<lambda>_. Some \<lparr>xg_pid = 0, xg_ppid = 0, xg_uid = 0, xg_ns_inum = 0,
          xg_timestamp_ns = 0, xg_exec_count = 0, xg_comm = replicate 16 NUL,
          xg_parent_comm = replicate 16 NUL, xg_binary_path = replicate 128 NUL,
          xg_cmdline = replicate 256 NUL, xg_cmdline_len = 0\<rparr>),
       map_ok = (\<lambda>_. True)\<rparr>,
      \<lparr>xt_real_parent_tgid = 1, xt_ns_inum = 7, xt_real_parent_comm = ''init''\<rparr>)"

lemma xg_count_sound_witness:
  "\<exists>e. e \<in> set (snd (xg_handle_exec (xg_sample 2 50)
          (fst (run_probe xg_handle_exec Map.empty [xg_sample 2 10, xg_sample 3 20])))) \<and>
     (\<exists>w. w = last_n (unat (xg_exec_count e))
             (xg_times (xg_key (xg_sample 2 50)) ([xg_sample 2 10, xg_sample 3 20] @ [xg_sample 2 50])) \<and>
        length w = unat (xg_exec_count e) \<and> w \<noteq> [] \<and> (\<forall>t \<in> set w. t - hd w \<le> WINDOW_NS))"
proof -
  let ?e = "hd (snd (xg_handle_exec (xg_sample 2 50)
          (fst (run_probe xg_handle_exec Map.empty [xg_sample 2 10, xg_sample 3 20]))))"
  have "?e \<in> set (snd (xg_handle_exec (xg_sample 2 50)
          (fst (run_probe xg_handle_exec Map.empty [xg_sample 2 10, xg_sample 3 20]))))"
    by (rule hd_in_set) (simp add: xg_handle_exec_def xg_sample_def Let_def case_prod_unfold)
  with xg_count_sound [OF _ this] show ?thesis by auto
qed

subsection \<open>A burst of executions\<close>

lemma xg_step_at:
  "fst (xg_handle_exec x stats) k =
     (if xg_key x = k \<and> reserve (fst x) 0 \<noteq> None
      then fst (xg_count (map_ok (fst x) 0) (ktime_ns (fst x) 0) k stats) k else stats k)"
  by (auto simp: xg_handle_exec_def xg_count_def Let_def split: option.splits prod.splits)

lemma xg_burst_state:
  assumes "\<forall>x \<in> set xs. map_ok (fst x) 0" and "length xs < 2 ^ 32"
    and "\<forall>t \<in> set (xg_times k xs). t - hd (xg_times k xs) \<le> WINDOW_NS"
  shows "fst (run_probe xg_handle_exec Map.empty xs) k =
    (if xg_times k xs = [] then None
     else Some \<lparr>window_start_ns = hd (xg_times k xs), stat_count = word_of_nat (length (xg_times k xs))\<rparr>)"
  using assms
proof (induction xs rule: rev_induct)
  case Nil
  then show ?case by (simp add: xg_times_def)
next
  case (snoc x xs)
  have "\<forall>t \<in> set (xg_times k xs). t - hd (xg_times k xs) \<le> WINDOW_NS"
    using snoc.prems(3) by (cases "xg_times k xs") (auto simp: xg_times_snoc)
  then have IH: "fst (run_probe xg_handle_exec Map.empty xs) k =
    (if xg_times k xs = [] then None
     else Some \<lparr>window_start_ns = hd (xg_times k xs), stat_count = word_of_nat (length (xg_times k xs))\<rparr>)"
    using snoc by simp
  show ?case
    using snoc.prems IH
    by (cases "xg_times k xs")
      (auto simp: fst_run_probe_snoc xg_step_at xg_count_def xg_times_snoc Let_def not_less)
qed

text \<open>C18: no execution of a burst is missed: as long as all executions seen of a user and command
  name lie within 60 seconds of the first and the map accepts the key, the \<open>n\<close>-th of them is
  reported with \<open>exec_count = n\<close>, however many other programs run in between.\<close>

theorem xg_burst_counted:
  assumes "\<forall>y \<in> set (xs @ [x]). map_ok (fst y) 0" and "length xs < 2 ^ 32 - 1"
    and "reserve (fst x) 0 \<noteq> None"
    and "\<forall>t \<in> set (xg_times (xg_key x) (xs @ [x])).
           t - hd (xg_times (xg_key x) (xs @ [x])) \<le> WINDOW_NS"
  shows "map (\<lambda>e. unat (xg_exec_count e))
      (snd (xg_handle_exec x (fst (run_probe xg_handle_exec Map.empty xs)))) =
    [length (xg_times (xg_key x) (xs @ [x]))]"
proof -
  let ?k = "xg_key x" and ?m = "fst (run_probe xg_handle_exec Map.empty xs)"
  obtain e0 where e0: "reserve (fst x) 0 = Some e0" using assms(3) by auto
  have "\<forall>t \<in> set (xg_times ?k xs). t - hd (xg_times ?k xs) \<le> WINDOW_NS"
    using assms(4) by (cases "xg_times ?k xs") (auto simp: xg_times_snoc)
  then have m: "?m ?k = (if xg_times ?k xs = [] then None
     else Some \<lparr>window_start_ns = hd (xg_times ?k xs), stat_count = word_of_nat (length (xg_times ?k xs))\<rparr>)"
    using xg_burst_state [of xs ?k] assms(1,2) by simp
  have len: "Suc (length (xg_times ?k xs)) < 2 ^ 32"
    using length_xg_times [of ?k xs] assms(2) by linarith
  then have "unat (word_of_nat (length (xg_times ?k xs)) + 1 :: u32) = Suc (length (xg_times ?k xs))"
    by (simp add: unat_word_ariths unat_of_nat)
  then show ?thesis
    using e0 m assms(4) len
    by (cases "xg_times ?k xs")
      (auto simp: xg_handle_exec_def xg_count_def xg_times_snoc Let_def not_less split: prod.splits)
qed

lemma xg_burst_counted_witness:
  "map (\<lambda>e. unat (xg_exec_count e))
      (snd (xg_handle_exec (xg_sample 2 50)
        (fst (run_probe xg_handle_exec Map.empty [xg_sample 2 10, xg_sample 3 20])))) = [2]"
proof -
  have t: "xg_times (xg_key (xg_sample 2 50)) ([xg_sample 2 10, xg_sample 3 20] @ [xg_sample 2 50]) = [10, 50]"
    by code_simp
  have "\<forall>y \<in> set ([xg_sample 2 10, xg_sample 3 20] @ [xg_sample 2 50]). map_ok (fst y) 0"
    "reserve (fst (xg_sample 2 50)) 0 \<noteq> None"
    by (simp_all add: xg_sample_def)
  from xg_burst_counted [OF this(1) _ this(2), unfolded t] show ?thesis
    by (simp add: WINDOW_NS_def)
qed

section \<open>User space\<close>

text \<open>\<open>basename_of\<close>: the loop keeps the position behind the last slash seen.\<close>

fun base_loop :: "string \<Rightarrow> string \<Rightarrow> string" where
  "base_loop [] base = base"
| "base_loop (c # s) base = base_loop s (if c = CHR ''/'' then s else base)"

definition basename_of :: "string \<Rightarrow> string" where
  "basename_of path = (if path = [] then [] else base_loop path path)"

definition shellish_names :: "string list" where
  "shellish_names =
     [''sh'', ''bash'', ''dash'', ''zsh'', ''su'',
      ''toybox'', ''busybox'', ''nc'', ''netcat'', ''ncat'',
      ''curl'', ''wget'', ''python'', ''python3'',
      ''perl'', ''php'', ''node'']"

definition is_shellish :: "string \<Rightarrow> bool" where
  "is_shellish name = (name \<in> set shellish_names)"

text \<open>One character of \<open>normalize_cmdline\<close>: terminators and control characters become
  spaces.\<close>

definition norm_char :: "char \<Rightarrow> char" where
  "norm_char c = (let c = (if c = NUL then CHR '' '' else c); n = of_char c :: nat in
     if (n < 32 \<or> n = 127) \<and> c \<noteq> CHR '' '' then CHR '' '' else c)"

text \<open>The copying loop with its two bounds; \<open>None\<close> is a read behind the source array.\<close>

function norm_loop :: "nat \<Rightarrow> char list \<Rightarrow> nat \<Rightarrow> nat \<Rightarrow> string \<Rightarrow> string option" where
  "norm_loop dst_sz src src_len i dst =
     (if i < src_len \<and> length dst + 1 < dst_sz
      then (if i < length src
            then norm_loop dst_sz src src_len (Suc i) (dst @ [norm_char (src ! i)])
            else None)
      else Some dst)"
  by pat_completeness auto
termination by (relation "measure (\<lambda>(dst_sz, src, src_len, i, dst). src_len - i)") auto

declare norm_loop.simps [simp del]

definition strip_trailing :: "string \<Rightarrow> string" where
  "strip_trailing s = rev (dropWhile (\<lambda>c. c = CHR '' '') (rev s))"

definition normalize_cmdline :: "nat \<Rightarrow> char list \<Rightarrow> nat \<Rightarrow> string option" where
  "normalize_cmdline dst_sz src src_len =
     (if dst_sz = 0 \<or> src_len = 0 then Some []
      else map_option strip_trailing (norm_loop dst_sz src src_len 0 []))"

definition xg_severity_for :: "xg_event \<Rightarrow> string" where
  "xg_severity_for e =
     (let base0 = basename_of (cstr (xg_binary_path e));
          base = (if base0 = [] then basename_of (cstr (xg_comm e)) else base0)
      in if is_shellish base
         then (if base = ''su'' \<and> xg_uid e \<noteq> 0 then ''ALERT''
               else if (base = ''sh'' \<or> base = ''bash'' \<or> base = ''toybox'' \<or> base = ''busybox'')
                       \<and> xg_uid e \<noteq> 0 then ''ALERT''
               else ''WARN'')
         else if 20 \<le> xg_exec_count e then ''ALERT''
         else if 12 \<le> xg_exec_count e then ''WARN''
         else ''INFO'')"

text \<open>The lines \<open>handle_event\<close> prints. \<open>hms\<close> is the local time of a number of seconds,
  which \<open>localtime_r\<close> and \<open>strftime\<close> compute from the time zone.\<close>

definition xg_handle_event :: "(u64 \<Rightarrow> string) \<Rightarrow> xg_event \<Rightarrow> string option" where
  "xg_handle_event hms e =
     (let sev = xg_severity_for e; ts = hms (xg_timestamp_ns e div 1000000000) in
      case normalize_cmdline 256 (xg_cmdline e) (unat (xg_cmdline_len e)) of
        None \<Rightarrow> None
      | Some cmdline \<Rightarrow> Some (
          ''['' @ ts @ ''] '' @ padr 5 sev @ '' pid='' @ padr 6 (dec32 (xg_pid e)) @
          '' ppid='' @ padr 6 (dec32 (xg_ppid e)) @ '' uid='' @ padr 5 (dec32 (xg_uid e)) @
          '' count='' @ padr 3 (dec32 (xg_exec_count e)) @
          '' ns='' @ padr 12 (dec32 (xg_ns_inum e)) @
          '' comm='' @ padr 16 (cstr (xg_comm e)) @
          '' parent='' @ padr 16 (cstr (xg_parent_comm e)) @ [newline] @
          ''         bin='' @ (if cstr (xg_binary_path e) \<noteq> [] then cstr (xg_binary_path e)
                              else ''(unknown)'') @ [newline] @
          (if cmdline \<noteq> [] then ''         cmd='' @ cmdline @ [newline]
           else ''         cmd=(empty)'' @ [newline])))"

subsection \<open>Base names\<close>

lemma base_loop_no_slash: "CHR ''/'' \<notin> set s \<Longrightarrow> base_loop s b = b"
  by (induction s arbitrary: b) auto

lemma base_loop_last_slash: "CHR ''/'' \<notin> set s \<Longrightarrow> base_loop (p @ CHR ''/'' # s) b = s"
  by (induction p arbitrary: b) (auto simp: base_loop_no_slash)

lemma basename_of_no_slash: "CHR ''/'' \<notin> set s \<Longrightarrow> basename_of s = s"
  by (simp add: basename_of_def base_loop_no_slash)

lemma basename_of_last_slash: "CHR ''/'' \<notin> set s \<Longrightarrow> basename_of (p @ CHR ''/'' # s) = s"
  by (simp add: basename_of_def base_loop_last_slash)

subsection \<open>Command lines\<close>

text \<open>Within the array the loop copies the longest prefix both bounds allow.\<close>

lemma norm_loop_copy:
  "length dst < dst_sz \<Longrightarrow> min src_len (i + (dst_sz - 1 - length dst)) \<le> length src \<Longrightarrow>
   norm_loop dst_sz src src_len i dst =
     Some (dst @ map norm_char (slice i (min (src_len - i) (dst_sz - 1 - length dst)) src))"
proof (induction dst_sz src src_len i dst rule: norm_loop.induct)
  case (1 dst_sz src src_len i dst)
  show ?case
  proof (cases "i < src_len \<and> length dst + 1 < dst_sz")
    case False
    with "1.prems" have "min (src_len - i) (dst_sz - 1 - length dst) = 0" by auto
    moreover have "norm_loop dst_sz src src_len i dst = Some dst"
      by (subst norm_loop.simps) (simp only: False if_False)
    ultimately show ?thesis by (simp add: slice_def)
  next
    case True
    then have i: "i < length src" using "1.prems" by auto
    let ?m = "min (src_len - Suc i) (dst_sz - 1 - Suc (length dst))"
    have m: "min (src_len - i) (dst_sz - 1 - length dst) = Suc ?m" using True by auto
    have "norm_loop dst_sz src src_len (Suc i) (dst @ [norm_char (src ! i)]) =
        Some ((dst @ [norm_char (src ! i)]) @ map norm_char (slice (Suc i) ?m src))"
      using "1.IH" [OF True i] "1.prems" True by auto
    moreover have "slice i (Suc ?m) src = src ! i # slice (Suc i) ?m src"
      using i by (simp add: slice_def Cons_nth_drop_Suc [symmetric])
    ultimately show ?thesis
      using True i m by (simp add: norm_loop.simps [of dst_sz src src_len i dst])
  qed
qed

lemma norm_char_printable:
  "norm_char c \<noteq> NUL \<and> (of_char (norm_char c) :: nat) \<noteq> 127 \<and> 32 \<le> (of_char (norm_char c) :: nat)"
  by (auto simp: norm_char_def Let_def)

lemma set_strip_trailing: "set (strip_trailing s) \<subseteq> set s"
  by (auto simp: strip_trailing_def dest: set_dropWhileD)

lemma length_strip_trailing: "length (strip_trailing s) \<le> length s"
  using length_dropWhile_le [of _ "rev s"] by (simp add: strip_trailing_def)

lemma strip_trailing_last:
  "strip_trailing s \<noteq> [] \<Longrightarrow> last (strip_trailing s) \<noteq> CHR '' ''"
  using hd_dropWhile [of "\<lambda>c. c = CHR '' ''" "rev s"] by (simp add: strip_trailing_def last_rev)

text \<open>C19: \<open>normalize_cmdline\<close> reads only inside the source array and yields a printable line:
  whenever the array holds the bytes it may look at, the result is the copied prefix with control
  characters and terminators turned into spaces and trailing spaces removed; it fits the
  destination, holds no control character and does not end in a space.\<close>

theorem normalize_cmdline_spec:
  assumes "min src_len (dst_sz - 1) \<le> length src" and "0 < dst_sz"
  shows "\<exists>r. normalize_cmdline dst_sz src src_len = Some r \<and>
    r = strip_trailing (map norm_char (take (min src_len (dst_sz - 1)) src)) \<and>
    length r < dst_sz \<and> (\<forall>c \<in> set r. 32 \<le> (of_char c :: nat) \<and> (of_char c :: nat) \<noteq> 127) \<and>
    (r \<noteq> [] \<longrightarrow> last r \<noteq> CHR '' '')"
proof -
  let ?s = "map norm_char (take (min src_len (dst_sz - 1)) src)"
  have "normalize_cmdline dst_sz src src_len = Some (strip_trailing ?s)"
    using assms norm_loop_copy [of "[]" dst_sz src_len 0 src]
    by (auto simp: normalize_cmdline_def slice_def strip_trailing_def)
  moreover have "length (strip_trailing ?s) < dst_sz"
    using length_strip_trailing [of ?s] assms by auto
  moreover have "\<forall>c \<in> set (strip_trailing ?s). 32 \<le> (of_char c :: nat) \<and> (of_char c :: nat) \<noteq> 127"
    using set_strip_trailing [of ?s] norm_char_printable by auto
  ultimately show ?thesis using strip_trailing_last by blast
qed

lemma normalize_cmdline_spec_witness:
  "\<exists>r. normalize_cmdline 8 (''ls'' @ [NUL] @ ''-l'' @ [newline, NUL]) 7 = Some r \<and>
    r = strip_trailing (map norm_char (take (min 7 (8 - 1)) (''ls'' @ [NUL] @ ''-l'' @ [newline, NUL]))) \<and>
    length r < 8 \<and> (\<forall>c \<in> set r. 32 \<le> (of_char c :: nat) \<and> (of_char c :: nat) \<noteq> 127) \<and>
    (r \<noteq> [] \<longrightarrow> last r \<noteq> CHR '' '')"
  by (rule normalize_cmdline_spec) simp_all

subsection \<open>Grades\<close>

definition guarded_shells :: "string list" where
  "guarded_shells = [''su'', ''sh'', ''bash'', ''toybox'', ''busybox'']"

text \<open>The grade of an execution, completely: \<open>ALERT\<close> exactly for one of five shells run by a
  user other than root or for twenty executions of a binary that is no listed tool; \<open>WARN\<close>
  exactly for every other listed tool and for twelve to nineteen executions; \<open>INFO\<close>
  otherwise. The rate of a listed tool never matters.\<close>

theorem xg_severity_classes:
  assumes "base = basename_of (cstr (xg_binary_path e))" and "base \<noteq> []"
  shows "(xg_severity_for e = ''ALERT'') =
      ((base \<in> set guarded_shells \<and> xg_uid e \<noteq> 0) \<or>
       (base \<notin> set shellish_names \<and> 20 \<le> xg_exec_count e)) \<and>
    (xg_severity_for e = ''WARN'') =
      ((base \<in> set shellish_names \<and> \<not> (base \<in> set guarded_shells \<and> xg_uid e \<noteq> 0)) \<or>
       (base \<notin> set shellish_names \<and> 12 \<le> xg_exec_count e \<and> xg_exec_count e < 20)) \<and>
    (xg_severity_for e = ''INFO'') = (base \<notin> set shellish_names \<and> xg_exec_count e < 12)"
proof -
  have sub: "base \<in> set guarded_shells \<Longrightarrow> base \<in> set shellish_names"
    by (auto simp: guarded_shells_def shellish_names_def)
  have g: "(base \<in> set guarded_shells) = (base = ''su'' \<or> base = ''sh'' \<or> base = ''bash'' \<or>
      base = ''toybox'' \<or> base = ''busybox'')"
    by (simp add: guarded_shells_def)
  have lt: "xg_exec_count e < 12 \<Longrightarrow> xg_exec_count e < 20" by (simp add: word_less_nat_alt)
  have sev: "xg_severity_for e =
      (if base \<in> set shellish_names
       then (if base \<in> set guarded_shells \<and> xg_uid e \<noteq> 0 then ''ALERT'' else ''WARN'')
       else if 20 \<le> xg_exec_count e then ''ALERT''
       else if 12 \<le> xg_exec_count e then ''WARN'' else ''INFO'')"
    unfolding xg_severity_for_def Let_def is_shellish_def assms(1) [symmetric] if_not_P [OF assms(2)] g
    by (cases "xg_uid e = 0") (simp_all del: in_set_conv_nth)
  show ?thesis
  proof (cases "base \<in> set shellish_names")
    case True
    then show ?thesis unfolding sev by simp
  next
    case False
    with sub lt show ?thesis unfolding sev by (auto simp: not_le)
  qed
qed

lemma xg_severity_classes_witness:
  "\<exists>base e. (base = basename_of (cstr (xg_binary_path e)) \<and> base \<noteq> []) \<and>
    (xg_severity_for e = ''ALERT'') =
      ((base \<in> set guarded_shells \<and> xg_uid e \<noteq> 0) \<or>
       (base \<notin> set shellish_names \<and> 20 \<le> xg_exec_count e))"
proof -
  let ?e = "\<lparr>xg_pid = 1, xg_ppid = 1, xg_uid = 2000, xg_ns_inum = 0, xg_timestamp_ns = 0,
     xg_exec_count = 1, xg_comm = [], xg_parent_comm = [], xg_binary_path = ''/bin/sh'' @ [NUL],
     xg_cmdline = [], xg_cmdline_len = 0\<rparr>"
  have b: "basename_of (cstr (xg_binary_path ?e)) = ''sh''" by code_simp
  then have "''sh'' = basename_of (cstr (xg_binary_path ?e))" by (rule sym)
  from xg_severity_classes [OF this] have "(xg_severity_for ?e = ''ALERT'') =
      ((''sh'' \<in> set guarded_shells \<and> xg_uid ?e \<noteq> 0) \<or>
       (''sh'' \<notin> set shellish_names \<and> 20 \<le> xg_exec_count ?e))" by simp
  with b show ?thesis by (intro exI [of _ "''sh''"] exI [of _ ?e]) simp
qed

subsection \<open>From the probe to the report\<close>

lemma cstr_comm_as_path:
  assumes "length comm = TASK_COMM_LEN" and "NUL \<in> set comm"
  shows "cstr (comm_as_path comm) = cstr comm"
proof -
  obtain r where r: "comm = cstr comm @ NUL # r" using cstr_decomp [OF assms(2)] by blast
  have "comm_as_path comm = comm @ replicate (PATH_LEN - TASK_COMM_LEN) NUL"
    using assms(1) by (simp add: comm_as_path_def memcpy_into_def)
  also have "\<dots> = cstr comm @ NUL # (r @ replicate (PATH_LEN - TASK_COMM_LEN) NUL)"
    by (subst r) simp
  finally show ?thesis by (simp add: cstr_append_NUL)
qed

lemma xg_handle_exec_event:
  assumes "e \<in> set (snd (xg_handle_exec x stats))"
  shows "xg_comm e = cur_comm (fst x)" "xg_binary_path e = comm_as_path (cur_comm (fst x))"
    "xg_uid e = cur_uid (fst x)" "xg_cmdline_len e = 0" "snd (xg_handle_exec x stats) = [e]"
  using assms
  by (auto simp: xg_handle_exec_def Let_def case_prod_unfold split: option.splits)

text \<open>Whatever the probe submits, the printer handles without reading outside an array: the
  binary it names is the command name of the process, the severity is that of this name, and the
  command line is always reported as empty.\<close>

theorem xg_report_of_exec:
  assumes "e \<in> set (snd (xg_handle_exec x stats))"
    and "length (cur_comm (fst x)) = TASK_COMM_LEN" and "NUL \<in> set (cur_comm (fst x))"
  shows "cstr (xg_binary_path e) = cstr (cur_comm (fst x)) \<and>
    (\<exists>line. xg_handle_event hms e = Some
      ((''['' @ hms (xg_timestamp_ns e div 1000000000) @ ''] '' @ padr 5 (xg_severity_for e)) @ line @
       ''         bin='' @ (if cstr (cur_comm (fst x)) = [] then ''(unknown)'' else cstr (cur_comm (fst x))) @
       [newline] @ ''         cmd=(empty)'' @ [newline]))"
proof -
  note ev = xg_handle_exec_event [OF assms(1)]
  have path: "cstr (xg_binary_path e) = cstr (cur_comm (fst x))"
    using ev assms(2,3) by (simp add: cstr_comm_as_path)
  moreover have "normalize_cmdline 256 (xg_cmdline e) (unat (xg_cmdline_len e)) = Some []"
    using ev by (simp add: normalize_cmdline_def)
  ultimately show ?thesis by (simp add: xg_handle_event_def Let_def)
qed

lemma xg_report_of_exec_witness:
  "\<exists>e. e \<in> set (snd (xg_handle_exec (xg_sample 2 50) Map.empty)) \<and>
    cstr (xg_binary_path e) = cstr (cur_comm (fst (xg_sample 2 50)))"
proof -
  let ?e = "hd (snd (xg_handle_exec (xg_sample 2 50) Map.empty))"
  have "?e \<in> set (snd (xg_handle_exec (xg_sample 2 50) Map.empty))"
    by (rule hd_in_set) (simp add: xg_handle_exec_def xg_sample_def Let_def case_prod_unfold)
  moreover have "length (cur_comm (fst (xg_sample 2 50))) = TASK_COMM_LEN"
    "NUL \<in> set (cur_comm (fst (xg_sample 2 50)))"
    by (simp_all add: xg_sample_def TASK_COMM_LEN_def)
  ultimately show ?thesis using xg_report_of_exec by blast
qed

end
