(* ===== verification/Privwatch.thy ===== *)
theory Privwatch
  imports Bpf_Env
begin

text \<open>
  \<open>privwatch\<close>: the probe on \<open>commit_creds\<close> (\<open>priviwatch/privwatch.bpf.c\<close>) and the printer of
  privilege changes (\<open>priviwatch/privwatch.c\<close>).
\<close>

section \<open>Kernel side\<close>

record pv_event =
  pv_pid :: u32
  pv_ppid :: u32
  pv_timestamp :: u64
  pv_old_uid :: u32
  pv_new_uid :: u32
  pv_old_gid :: u32
  pv_new_gid :: u32
  pv_old_caps_eff :: u64
  pv_new_caps_eff :: u64
  pv_ns_inum :: u32
  pv_comm :: "char list"

text \<open>What the program reads of a \<open>struct cred\<close>; the capability object is read as two
  32-bit words.\<close>

record cred =
  cred_uid :: u32
  cred_gid :: u32
  cap_val0 :: u32
  cap_val1 :: u32

record pv_task =
  task_cred :: cred
  pt_real_parent_tgid :: u32
  pt_ns_inum :: u32

definition read_caps :: "cred \<Rightarrow> u64" where
  "read_caps c = push_bit 32 (ucast (cap_val1 c)) OR ucast (cap_val0 c)"

definition trace_commit_creds ::
  "pv_event probe_env \<Rightarrow> pv_task \<Rightarrow> cred \<Rightarrow> pv_event list" where
  "trace_commit_creds env task new_cred =
     (let old_cred = task_cred task;
          old_uid = cred_uid old_cred; new_uid = cred_uid new_cred;
          old_gid = cred_gid old_cred; new_gid = cred_gid new_cred;
          old_caps = read_caps old_cred; new_caps = read_caps new_cred
      in if old_uid = new_uid \<and> old_gid = new_gid \<and> old_caps = new_caps then []
         else (case reserve env 0 of
                 None \<Rightarrow> []
               | Some e0 \<Rightarrow>
                   [e0\<lparr>pv_timestamp := ktime_ns env 0,
                       pv_pid := cur_pid env,
                       pv_ppid := pt_real_parent_tgid task,
                       pv_old_uid := old_uid,
                       pv_new_uid := new_uid,
                       pv_old_gid := old_gid,
                       pv_new_gid := new_gid,
                       pv_old_caps_eff := old_caps,
                       pv_new_caps_eff := new_caps,
                       pv_ns_inum := pt_ns_inum task,
                       pv_comm := cur_comm env\<rparr>]))"

text \<open>The two words of the capability set are kept apart by the packing.\<close>

lemma bit_read_caps:
  "bit (read_caps c) n = (if n < 32 then bit (cap_val0 c) n else bit (cap_val1 c) (n - 32))"
  by (auto simp: read_caps_def bit_simps not_less dest: bit_imp_le_length)

lemma read_caps_inject:
  "read_caps c = read_caps d \<longleftrightarrow> cap_val0 c = cap_val0 d \<and> cap_val1 c = cap_val1 d"
proof
  assume eq: "read_caps c = read_caps d"
  have "bit (cap_val0 c) n = bit (cap_val0 d) n" if "n < 32" for n
    using that bit_read_caps [of c n] bit_read_caps [of d n] eq by simp
  moreover have "bit (cap_val1 c) n = bit (cap_val1 d) n" for n
    using bit_read_caps [of c "n + 32"] bit_read_caps [of d "n + 32"] eq by simp
  ultimately show "cap_val0 c = cap_val0 d \<and> cap_val1 c = cap_val1 d"
    by (auto intro!: bit_word_eqI)
qed (simp add: read_caps_def)

text \<open>C34: the probe reports a credential change exactly when the user, the group or one of the two
  capability words changes and the ring buffer has room; no change is masked by the packing of the
  capability words, and the report carries both sides of the change.\<close>

theorem pv_reports_changes:
  "(trace_commit_creds env task new = [] \<longleftrightarrow>
      (cred_uid (task_cred task) = cred_uid new \<and> cred_gid (task_cred task) = cred_gid new \<and>
       cap_val0 (task_cred task) = cap_val0 new \<and> cap_val1 (task_cred task) = cap_val1 new) \<or>
      reserve env 0 = None) \<and>
   (trace_commit_creds env task new \<noteq> [] \<longrightarrow>
      (\<exists>e. trace_commit_creds env task new = [e] \<and> pv_pid e = cur_pid env \<and>
        pv_old_uid e = cred_uid (task_cred task) \<and> pv_new_uid e = cred_uid new \<and>
        pv_old_gid e = cred_gid (task_cred task) \<and> pv_new_gid e = cred_gid new \<and>
        pv_old_caps_eff e = read_caps (task_cred task) \<and> pv_new_caps_eff e = read_caps new))"
  by (auto simp: trace_commit_creds_def Let_def read_caps_inject split: option.splits if_splits)

definition pv_sample_env :: "pv_event probe_env" where
  "pv_sample_env =
     \<lparr>ktime_ns = (\<lambda>_. 5000000000), pid_tgid = push_bit 32 77, uid_gid = 10000,
      cur_comm = ''su'' @ replicate 14 NUL,
      reserve = (\<lambda>_. Some \<lparr>pv_pid = 0, pv_ppid = 0, pv_timestamp = 0, pv_old_uid = 0,
        pv_new_uid = 0, pv_old_gid = 0, pv_new_gid = 0, pv_old_caps_eff = 0, pv_new_caps_eff = 0,
        pv_ns_inum = 0, pv_comm = replicate 16 NUL\<rparr>),
      map_ok = (\<lambda>_. True)\<rparr>"

definition pv_sample_cred :: "u32 \<Rightarrow> cred" where
  "pv_sample_cred u = \<lparr>cred_uid = u, cred_gid = u, cap_val0 = 0, cap_val1 = 0\<rparr>"

definition pv_sample_task :: "u32 \<Rightarrow> pv_task" where
  "pv_sample_task u =
     \<lparr>task_cred = pv_sample_cred u, pt_real_parent_tgid = 1, pt_ns_inum = 7\<rparr>"

lemma pv_reports_changes_witness:
  "\<exists>e. trace_commit_creds pv_sample_env (pv_sample_task 10000) (pv_sample_cred 0) = [e] \<and>
     pv_old_uid e = 10000 \<and> pv_new_uid e = 0"
proof -
  have "trace_commit_creds pv_sample_env (pv_sample_task 10000) (pv_sample_cred 0) \<noteq> []"
    using pv_reports_changes [of pv_sample_env "pv_sample_task 10000" "pv_sample_cred 0"]
    by (simp add: pv_sample_env_def pv_sample_task_def pv_sample_cred_def)
  with pv_reports_changes [of pv_sample_env "pv_sample_task 10000" "pv_sample_cred 0"]
  show ?thesis by (auto simp: pv_sample_task_def pv_sample_cred_def)
qed

section \<open>User space\<close>

definition pv_severity :: "pv_event \<Rightarrow> string" where
  "pv_severity e =
     (let s0 = ''INFO'';
          s1 = (if pv_new_uid e = 0 \<and> pv_old_uid e \<noteq> 0 then ''WARN'' else s0)
      in (if pv_new_uid e = 0 \<and> 10000 < pv_old_uid e then ''ALERT'' else s1))"

definition cap_labels :: "(nat \<times> string) list" where
  "cap_labels =
     [(0, '' [+CAP_CHOWN]''), (1, '' [+CAP_DAC_OVERRIDE]''), (3, '' [+CAP_FOWNER]''),
      (6, '' [+CAP_SETUID]''), (7, '' [+CAP_SETGID]''), (21, '' [+CAP_SYS_ADMIN]''),
      (27, '' [+CAP_SYS_PTRACE]'')]"

definition gained_labels :: "u64 \<Rightarrow> u64 \<Rightarrow> string list" where
  "gained_labels old_c new_c =
     (let gained = new_c AND NOT old_c
      in map snd (filter (\<lambda>(n, _). gained AND push_bit n 1 \<noteq> 0) cap_labels))"

definition print_caps :: "u64 \<Rightarrow> u64 \<Rightarrow> string" where
  "print_caps old_c new_c =
     (if old_c = new_c then []
      else ''  caps=0x'' @ uhex (unat old_c) @ ''->0x'' @ uhex (unat new_c) @
           concat (gained_labels old_c new_c))"

definition pv_handle_event :: "(u64 \<Rightarrow> string) \<Rightarrow> pv_event \<Rightarrow> string" where
  "pv_handle_event hms e =
     ''['' @ hms (pv_timestamp e div 1000000000) @ ''] '' @ padr 5 (pv_severity e) @
     '' pid='' @ padr 6 (dec32 (pv_pid e)) @ '' ppid='' @ padr 6 (dec32 (pv_ppid e)) @
     '' comm='' @ padr 16 (cstr (pv_comm e)) @ '' ns='' @ padr 12 (dec32 (pv_ns_inum e)) @
     (if pv_old_uid e \<noteq> pv_new_uid e
      then ''  uid='' @ dec32 (pv_old_uid e) @ ''->'' @ dec32 (pv_new_uid e) else []) @
     (if pv_old_gid e \<noteq> pv_new_gid e
      then ''  gid='' @ dec32 (pv_old_gid e) @ ''->'' @ dec32 (pv_new_gid e) else []) @
     print_caps (pv_old_caps_eff e) (pv_new_caps_eff e) @ [newline]"

lemma bit_single: "n < 64 \<Longrightarrow> (x :: u64) AND push_bit n 1 \<noteq> 0 \<longleftrightarrow> bit x n"
  by (metis (no_types) and_exp_eq_0_iff_not_bit push_bit_of_1)

lemma unat_read_caps: "unat (read_caps c) = unat (cap_val0 c) + 4294967296 * unat (cap_val1 c)"
proof -
  have d: "push_bit 32 (ucast (cap_val1 c) :: u64) AND ucast (cap_val0 c) = 0"
    by (rule bit_word_eqI) (auto simp: bit_simps dest: bit_imp_le_length)
  have lt: "unat (cap_val0 c) < 4294967296" "unat (cap_val1 c) < 4294967296"
    by (rule unat_u32_lt)+
  then have u: "unat (ucast (cap_val0 c) :: u64) = unat (cap_val0 c)"
    "unat (ucast (cap_val1 c) :: u64) = unat (cap_val1 c)"
    by (simp_all add: unsigned_ucast_eq take_bit_nat_eq_self)
  have "read_caps c = push_bit 32 (ucast (cap_val1 c)) + ucast (cap_val0 c)"
    using d by (simp add: read_caps_def disjunctive_add_eq_or)
  also have "\<dots> = ucast (cap_val1 c) * 4294967296 + ucast (cap_val0 c)"
    by (simp add: push_bit_eq_mult)
  finally show ?thesis
    using lt u by (simp add: unat_word_ariths)
qed

lemma gained_labels_bits:
  "gained_labels old_c new_c = map snd (filter (\<lambda>(n, _). bit new_c n \<and> \<not> bit old_c n) cap_labels)"
proof -
  have "(new_c AND NOT old_c) AND push_bit n 1 \<noteq> 0 \<longleftrightarrow> bit new_c n \<and> \<not> bit old_c n"
    if "(n, l) \<in> set cap_labels" for n l
  proof -
    have "n < 64" using that by (auto simp: cap_labels_def)
    then show ?thesis using bit_single [of n "new_c AND NOT old_c"] by (simp add: bit_simps)
  qed
  then show ?thesis
    unfolding gained_labels_def Let_def by (intro arg_cong [where f = "map snd"] filter_cong) auto
qed

text \<open>C35: what a report says about capabilities, from the credentials to the text: nothing if the
  effective set is unchanged, otherwise the old and the new set of 64 bits in hexadecimal, followed by
  a label for each of the bits 0, 1, 3, 6, 7, 21 and 27 of the first capability word that the
  new credentials have and the old ones had not, in this order. The labels of the bits
  0, 1, 3 and 21 are the names of the kernel's interface (\<open>linux/capability.h\<close>). The others are not:
  there bit 6 is \<open>CAP_SETGID\<close> and bit 7 \<open>CAP_SETUID\<close>, which the tool swaps, and bit 27 is
  \<open>CAP_MKNOD\<close>, while \<open>CAP_SYS_PTRACE\<close> is bit 19, whose gain is never named.\<close>

theorem pv_gained_labels:
  assumes "e \<in> set (trace_commit_creds env task new)" and "old = task_cred task"
  shows "print_caps (pv_old_caps_eff e) (pv_new_caps_eff e) =
    (if cap_val0 old = cap_val0 new \<and> cap_val1 old = cap_val1 new then []
     else ''  caps=0x'' @ uhex (unat (cap_val0 old) + 4294967296 * unat (cap_val1 old)) @
       ''->0x'' @ uhex (unat (cap_val0 new) + 4294967296 * unat (cap_val1 new)) @
       concat (map snd (filter (\<lambda>(n, _). bit (cap_val0 new) n \<and> \<not> bit (cap_val0 old) n)
         [(0, '' [+CAP_CHOWN]''), (1, '' [+CAP_DAC_OVERRIDE]''), (3, '' [+CAP_FOWNER]''),
          (6, '' [+CAP_SETUID]''), (7, '' [+CAP_SETGID]''), (21, '' [+CAP_SYS_ADMIN]''),
          (27, '' [+CAP_SYS_PTRACE]'')])))"
proof -
  have e: "pv_old_caps_eff e = read_caps old" "pv_new_caps_eff e = read_caps new"
    using assms by (auto simp: trace_commit_creds_def Let_def split: option.splits if_splits)
  have "n < 32" if "(n, l) \<in> set cap_labels" for n l
    using that by (auto simp: cap_labels_def)
  then have word: "filter (\<lambda>(n, _). bit (read_caps new) n \<and> \<not> bit (read_caps old) n) cap_labels =
      filter (\<lambda>(n, _). bit (cap_val0 new) n \<and> \<not> bit (cap_val0 old) n) cap_labels"
    by (intro filter_cong) (auto simp: bit_read_caps)
  show ?thesis
    unfolding e print_caps_def read_caps_inject unat_read_caps gained_labels_bits word
    unfolding cap_labels_def by (rule refl)
qed

lemma pv_gained_labels_witness:
  "\<exists>e. e \<in> set (trace_commit_creds pv_sample_env (pv_sample_task 10077) (pv_sample_cred 0\<lparr>cap_val0 := 0x200000\<rparr>)) \<and>
     print_caps (pv_old_caps_eff e) (pv_new_caps_eff e) = ''  caps=0x0->0x200000 [+CAP_SYS_ADMIN]''"
proof -
  let ?new = "pv_sample_cred 0\<lparr>cap_val0 := 0x200000\<rparr>"
  let ?es = "trace_commit_creds pv_sample_env (pv_sample_task 10077) ?new"
  have mem: "hd ?es \<in> set ?es"
    by (rule hd_in_set)
      (simp add: trace_commit_creds_def pv_sample_env_def pv_sample_task_def pv_sample_cred_def)
  have sel: "filter (\<lambda>(n, _). bit (0x200000 :: u32) n \<and> \<not> bit (0 :: u32) n)
      [(0 :: nat, '' [+CAP_CHOWN]''), (1, '' [+CAP_DAC_OVERRIDE]''), (3, '' [+CAP_FOWNER]''),
       (6, '' [+CAP_SETUID]''), (7, '' [+CAP_SETGID]''), (21, '' [+CAP_SYS_ADMIN]''),
       (27, '' [+CAP_SYS_PTRACE]'')] = [(21, '' [+CAP_SYS_ADMIN]'')]"
    by code_simp
  have digits: "hex_char 0 = CHR ''0''" "hex_char 2 = CHR ''2''" by code_simp+
  then have hex: "uhex 0 = ''0''" "uhex 0x200000 = ''200000''"
    by (simp_all add: uhex.simps digits)
  have v: "cap_val0 ?new = 0x200000" "cap_val1 ?new = 0" "cap_val0 (task_cred (pv_sample_task 10077)) = 0"
    "cap_val1 (task_cred (pv_sample_task 10077)) = 0"
    by (simp_all add: pv_sample_task_def pv_sample_cred_def)
  have "print_caps (pv_old_caps_eff (hd ?es)) (pv_new_caps_eff (hd ?es)) =
      ''  caps=0x0->0x200000 [+CAP_SYS_ADMIN]''"
    unfolding pv_gained_labels [OF mem refl] v sel by (simp add: hex)
  with mem show ?thesis by blast
qed

text \<open>A gain of bit 19, which the kernel interface calls \<open>CAP_SYS_PTRACE\<close>, is printed
  without a name, while bit 27 gets its label.\<close>

lemma pv_ptrace_label:
  "gained_labels 0 (push_bit 19 1) = [] \<and> gained_labels 0 (push_bit 27 1) = ['' [+CAP_SYS_PTRACE]'']"
  by code_simp

text \<open>The severity of a reported change, completely, over what the probe submits: a process of an
  application user (above 10000) that becomes root is an \<open>ALERT\<close>, any other one that becomes
  root a \<open>WARN\<close>, everything else \<open>INFO\<close>; user 10000 itself still counts as a
  system user.\<close>

theorem pv_severity_of_change:
  assumes "e \<in> set (trace_commit_creds env task new)"
  shows "pv_severity e =
    (if cred_uid new = 0 \<and> cred_uid (task_cred task) \<noteq> 0
     then (if 10000 < unat (cred_uid (task_cred task)) then ''ALERT'' else ''WARN'')
     else ''INFO'')"
proof -
  have "pv_new_uid e = cred_uid new" "pv_old_uid e = cred_uid (task_cred task)"
    using assms
    by (auto simp: trace_commit_creds_def Let_def split: option.splits if_splits)
  then show ?thesis
    by (auto simp: pv_severity_def Let_def word_less_nat_alt)
qed

lemma pv_severity_of_change_witness:
  "\<exists>e. e \<in> set (trace_commit_creds pv_sample_env (pv_sample_task 10000) (pv_sample_cred 0)) \<and>
    pv_severity e = ''WARN''"
proof -
  let ?es = "trace_commit_creds pv_sample_env (pv_sample_task 10000) (pv_sample_cred 0)"
  have "hd ?es \<in> set ?es"
    by (rule hd_in_set)
      (simp add: trace_commit_creds_def pv_sample_env_def pv_sample_task_def pv_sample_cred_def)
  moreover from pv_severity_of_change [OF this] have "pv_severity (hd ?es) = ''WARN''"
    by (simp add: pv_sample_task_def pv_sample_cred_def)
  ultimately show ?thesis by blast
qed

end
