(* ===== verification/Filewatch.thy ===== *)
theory Filewatch
  imports Bpf_Env
begin

text \<open>
  \<open>filewatch\<close> (\<open>filewatch/filewatch.bpf.c\<close>, \<open>filewatch/filewatch.c\<close>) and its unfiltered
  sibling \<open>filewatch_broad\<close>: four probes on VFS operations that share one reporting routine.
\<close>

section \<open>Kernel side of filewatch\<close>

definition OP_OPEN :: u32 where "OP_OPEN = 1"
definition OP_WRITE :: u32 where "OP_WRITE = 2"
definition OP_DELETE :: u32 where "OP_DELETE = 3"
definition OP_RENAME :: u32 where "OP_RENAME = 4"

definition S_IFMT :: u16 where "S_IFMT = 0xF000"
definition S_IFREG :: u16 where "S_IFREG = 0x8000"

record fw_event =
  fw_pid :: u32
  fw_uid :: u32
  fw_op :: u32
  fw_inode :: u64
  fw_dev :: u32
  fw_filename :: "char list"

text \<open>What the programs read of kernel objects; \<open>None\<close> is a null pointer.\<close>

record inode_view =
  i_mode :: u16
  i_ino :: u64
  i_sb_dev :: u32

record dentry_view =
  d_inode :: "inode_view option"
  d_name :: "char list option"

type_synonym pid_map = "u32 \<rightharpoonup> u32"

definition should_ignore_self :: "fw_event probe_env \<Rightarrow> pid_map \<Rightarrow> bool" where
  "should_ignore_self env ignore_pid =
     (case ignore_pid 0 of None \<Rightarrow> False | Some p \<Rightarrow> cur_pid env = p)"

definition is_regular_file :: "dentry_view option \<Rightarrow> bool" where
  "is_regular_file de =
     (case de of None \<Rightarrow> False
      | Some d \<Rightarrow> (case d_inode d of None \<Rightarrow> False
                  | Some inode \<Rightarrow> i_mode inode AND S_IFMT = S_IFREG))"

definition fw_submit_event ::
  "fw_event probe_env \<Rightarrow> pid_map \<Rightarrow> dentry_view option \<Rightarrow> u32 \<Rightarrow> fw_event list" where
  "fw_submit_event env ignore_pid de op =
     (case de of
        None \<Rightarrow> []
      | Some d \<Rightarrow>
          if should_ignore_self env ignore_pid then []
          else if \<not> is_regular_file de then []
          else (case reserve env 0 of
                  None \<Rightarrow> []
                | Some e0 \<Rightarrow>
                    (let e1 = e0\<lparr>fw_pid := cur_pid env, fw_uid := cur_uid env, fw_op := op\<rparr>;
                         e2 = (case d_inode d of
                                 Some inode \<Rightarrow> e1\<lparr>fw_inode := i_ino inode, fw_dev := i_sb_dev inode\<rparr>
                               | None \<Rightarrow> e1\<lparr>fw_inode := 0, fw_dev := 0\<rparr>);
                         e3 = (case d_name d of
                                 Some name \<Rightarrow> e2\<lparr>fw_filename := read_str_into (fw_filename e2) name\<rparr>
                               | None \<Rightarrow> e2\<lparr>fw_filename := (fw_filename e2)[0 := NUL]\<rparr>)
                     in [e3])))"

definition trace_open :: "fw_event probe_env \<Rightarrow> pid_map \<Rightarrow> dentry_view option \<Rightarrow> fw_event list" where
  "trace_open env m path_dentry = fw_submit_event env m path_dentry OP_OPEN"

definition trace_write :: "fw_event probe_env \<Rightarrow> pid_map \<Rightarrow> dentry_view option \<Rightarrow> fw_event list" where
  "trace_write env m file_dentry = fw_submit_event env m file_dentry OP_WRITE"

definition trace_unlink :: "fw_event probe_env \<Rightarrow> pid_map \<Rightarrow> dentry_view option \<Rightarrow> fw_event list" where
  "trace_unlink env m de = fw_submit_event env m de OP_DELETE"

definition trace_rename ::
  "fw_event probe_env \<Rightarrow> pid_map \<Rightarrow> dentry_view option \<Rightarrow> dentry_view option \<Rightarrow> fw_event list" where
  "trace_rename env m old_de new_de = fw_submit_event env m old_de OP_RENAME"

section \<open>Kernel side of filewatch_broad\<close>

definition fwb_should_ignore :: "fw_event probe_env \<Rightarrow> pid_map \<Rightarrow> bool" where
  "fwb_should_ignore env ignore_pid =
     (case ignore_pid 0 of None \<Rightarrow> False
      | Some p \<Rightarrow> if cur_pid env = p then True else False)"

definition fwb_submit_event ::
  "fw_event probe_env \<Rightarrow> pid_map \<Rightarrow> dentry_view option \<Rightarrow> u32 \<Rightarrow> fw_event list" where
  "fwb_submit_event env ignore_pid de op =
     (case de of
        None \<Rightarrow> []
      | Some d \<Rightarrow>
          if fwb_should_ignore env ignore_pid then []
          else (case reserve env 0 of
                  None \<Rightarrow> []
                | Some e0 \<Rightarrow>
                    (let e1 = e0\<lparr>fw_pid := cur_pid env, fw_uid := cur_uid env, fw_op := op\<rparr>;
                         e2 = (case d_inode d of
                                 Some inode \<Rightarrow> e1\<lparr>fw_inode := i_ino inode, fw_dev := i_sb_dev inode\<rparr>
                               | None \<Rightarrow> e1\<lparr>fw_inode := 0, fw_dev := 0\<rparr>);
                         e3 = (case d_name d of
                                 Some name \<Rightarrow> e2\<lparr>fw_filename := read_str_into (fw_filename e2) name\<rparr>
                               | None \<Rightarrow> e2\<lparr>fw_filename :=
                                   memcpy_into (fw_filename e2) (''unknown'' @ [NUL]) 8\<rparr>)
                     in [e3])))"

definition fwb_trace_open :: "fw_event probe_env \<Rightarrow> pid_map \<Rightarrow> dentry_view option \<Rightarrow> fw_event list" where
  "fwb_trace_open env m path_dentry = fwb_submit_event env m path_dentry OP_OPEN"

definition fwb_trace_write :: "fw_event probe_env \<Rightarrow> pid_map \<Rightarrow> dentry_view option \<Rightarrow> fw_event list" where
  "fwb_trace_write env m file_dentry = fwb_submit_event env m file_dentry OP_WRITE"

definition fwb_trace_unlink :: "fw_event probe_env \<Rightarrow> pid_map \<Rightarrow> dentry_view option \<Rightarrow> fw_event list" where
  "fwb_trace_unlink env m de = fwb_submit_event env m de OP_DELETE"

definition fwb_trace_rename ::
  "fw_event probe_env \<Rightarrow> pid_map \<Rightarrow> dentry_view option \<Rightarrow> dentry_view option \<Rightarrow> fw_event list" where
  "fwb_trace_rename env m old_de new_de = fwb_submit_event env m old_de OP_RENAME"

section \<open>User space\<close>

definition op_name :: "u32 \<Rightarrow> string" where
  "op_name op =
     (if op = 1 then ''OPEN'' else if op = 2 then ''WRITE'' else if op = 3 then ''DELETE''
      else if op = 4 then ''RENAME'' else ''UNKNOWN'')"

definition fw_line :: "fw_event \<Rightarrow> string \<Rightarrow> string" where
  "fw_line e file =
     padr 8 (op_name (fw_op e)) @ '' pid='' @ padr 6 (dec32 (fw_pid e)) @
     '' uid='' @ padr 6 (dec32 (fw_uid e)) @ '' inode='' @ padr 8 (dec32 (fw_inode e)) @
     '' dev='' @ padr 6 (dec32 (fw_dev e)) @ '' file='' @ file @ [newline]"

definition fw_handle_event :: "fw_event \<Rightarrow> string" where
  "fw_handle_event e =
     fw_line e (if cstr (fw_filename e) \<noteq> [] then cstr (fw_filename e) else ''-'')"

definition fwb_handle_event :: "fw_event \<Rightarrow> string" where
  "fwb_handle_event e = fw_line e (cstr (fw_filename e))"

section \<open>Properties\<close>

lemma regular_has_inode: "is_regular_file (Some d) \<Longrightarrow> \<exists>i. d_inode d = Some i"
  by (auto simp: is_regular_file_def split: option.splits)

lemma fwb_ignore_eq: "fwb_should_ignore env m = should_ignore_self env m"
  by (simp add: fwb_should_ignore_def should_ignore_self_def split: option.splits)

text \<open>C36: \<open>filewatch\<close> is \<open>filewatch_broad\<close> restricted to regular files: on a named
  directory entry both submit the same event if its inode is a regular file, and
  \<open>filewatch\<close> is silent on every other entry.\<close>

theorem fw_is_broad_on_regular:
  assumes "d_name d \<noteq> None"
  shows "fw_submit_event env m (Some d) op =
    (if is_regular_file (Some d) then fwb_submit_event env m (Some d) op else [])"
  using assms
  by (auto simp: fw_submit_event_def fwb_submit_event_def fwb_ignore_eq Let_def split: option.splits)

definition fw_sample_env :: "fw_event probe_env" where
  "fw_sample_env =
     \<lparr>ktime_ns = (\<lambda>_. 0), pid_tgid = push_bit 32 42, uid_gid = 1000,
      cur_comm = ''cat'' @ replicate 13 NUL,
      reserve = (\<lambda>_. Some \<lparr>fw_pid = 0, fw_uid = 0, fw_op = 0, fw_inode = 0, fw_dev = 0,
        fw_filename = replicate 64 CHR ''x''\<rparr>),
      map_ok = (\<lambda>_. True)\<rparr>"

definition fw_sample_dentry :: dentry_view where
  "fw_sample_dentry =
     \<lparr>d_inode = Some \<lparr>i_mode = 0x81A4, i_ino = 12, i_sb_dev = 8\<rparr>,
      d_name = Some (''demo.txt'' @ [NUL])\<rparr>"

lemma fw_is_broad_on_regular_witness:
  "fw_submit_event fw_sample_env (array_map1 7) (Some fw_sample_dentry) 1 =
     fwb_submit_event fw_sample_env (array_map1 7) (Some fw_sample_dentry) 1"
  using fw_is_broad_on_regular [of fw_sample_dentry fw_sample_env "array_map1 7" 1]
  by (simp add: fw_sample_dentry_def is_regular_file_def S_IFMT_def S_IFREG_def)

text \<open>C37: what the four probes of \<open>filewatch\<close> make the user see, to the last character. On a
  directory entry with an inode, and with room in the ring buffer, each of them leads to one line exactly if the
  acting process is not the tracer itself and the inode is a regular file, and to none otherwise; the
  line has the name of the operation probed, the acting process and user, the inode and device
  numbers and the name of the entry up to 63 characters, or a dash for an empty or missing
  name, whatever the reserved memory held before.\<close>

theorem fw_event_facts:
  assumes "reserve env 0 = Some e0" and "length (fw_filename e0) = 64" and "d_inode d = Some i"
  shows "[map fw_handle_event (trace_open env m (Some d)), map fw_handle_event (trace_write env m (Some d)),
      map fw_handle_event (trace_unlink env m (Some d)),
      map fw_handle_event (trace_rename env m (Some d) new)] =
    map (\<lambda>op. if m 0 \<noteq> Some (cur_pid env) \<and> i_mode i AND 0xF000 = 0x8000
       then [padr 8 op @ '' pid='' @ padr 6 (dec32 (cur_pid env)) @ '' uid='' @ padr 6 (dec32 (cur_uid env)) @
             '' inode='' @ padr 8 (dec32 (i_ino i)) @ '' dev='' @ padr 6 (dec32 (i_sb_dev i)) @
             '' file='' @ (case d_name d of
                              None \<Rightarrow> ''-''
                            | Some name \<Rightarrow> if cstr name = [] then ''-'' else take 63 (cstr name)) @ [newline]]
       else [])
      [''OPEN'', ''WRITE'', ''DELETE'', ''RENAME'']"
proof -
  obtain c r where f: "fw_filename e0 = c # r" using assms(2) by (cases "fw_filename e0") auto
  have "map fw_handle_event (fw_submit_event env m (Some d) op) =
      (if m 0 \<noteq> Some (cur_pid env) \<and> i_mode i AND 0xF000 = 0x8000
       then [padr 8 (op_name op) @ '' pid='' @ padr 6 (dec32 (cur_pid env)) @ '' uid='' @
             padr 6 (dec32 (cur_uid env)) @ '' inode='' @ padr 8 (dec32 (i_ino i)) @ '' dev='' @
             padr 6 (dec32 (i_sb_dev i)) @ '' file='' @
             (case d_name d of
                None \<Rightarrow> ''-''
              | Some name \<Rightarrow> if cstr name = [] then ''-'' else take 63 (cstr name)) @ [newline]]
       else [])" for op
    using assms f cstr_read_str_into [of "fw_filename e0"]
    by (auto simp: fw_submit_event_def should_ignore_self_def is_regular_file_def S_IFMT_def S_IFREG_def
        fw_handle_event_def fw_line_def Let_def split: option.split)
  moreover have "op_name OP_OPEN = ''OPEN''" "op_name OP_WRITE = ''WRITE''" "op_name OP_DELETE = ''DELETE''"
    "op_name OP_RENAME = ''RENAME''"
    by (simp_all add: op_name_def OP_OPEN_def OP_WRITE_def OP_DELETE_def OP_RENAME_def)
  ultimately show ?thesis
    by (simp add: trace_open_def trace_write_def trace_unlink_def trace_rename_def)
qed

lemma fw_event_facts_witness:
  "map fw_handle_event (trace_unlink fw_sample_env (array_map1 7) (Some fw_sample_dentry)) =
     [padr 8 ''DELETE'' @ '' pid='' @ padr 6 ''42'' @ '' uid='' @ padr 6 ''1000'' @
      '' inode='' @ padr 8 ''12'' @ '' dev='' @ padr 6 ''8'' @ '' file=demo.txt'' @ [newline]]"
proof -
  have env: "cur_pid fw_sample_env = 42" "cur_uid fw_sample_env = 1000" by code_simp+
  have digits: "digit_char 0 = CHR ''0''" "digit_char 1 = CHR ''1''" "digit_char 2 = CHR ''2''"
    "digit_char 4 = CHR ''4''" "digit_char 8 = CHR ''8''"
    by code_simp+
  have nums: "udec 42 = ''42''" "udec 1000 = ''1000''" "udec 12 = ''12''" "udec 8 = ''8''"
    using digits by (simp_all add: udec.simps)
  obtain e0 where "reserve fw_sample_env 0 = Some e0" "length (fw_filename e0) = 64"
    by (simp add: fw_sample_env_def)
  moreover have "d_inode fw_sample_dentry = Some \<lparr>i_mode = 0x81A4, i_ino = 12, i_sb_dev = 8\<rparr>"
    by (simp add: fw_sample_dentry_def)
  ultimately show ?thesis
    using arg_cong [OF fw_event_facts [of fw_sample_env e0 fw_sample_dentry _ "array_map1 7" None],
        where f = "\<lambda>xs. xs ! 2"]
    by (simp add: env nums array_map1_def) (simp add: fw_sample_dentry_def)
qed

end
