(* ===== verification/Procwatch.thy ===== *)
theory Procwatch
  imports Bpf_Env
begin

text \<open>
  \<open>procwatch\<close>: the three scheduler tracepoints (\<open>procwatch/procwatch.bpf.c\<close>) and the
  printer of process events (\<open>procwatch/procwatch.c\<close>).
\<close>

section \<open>Kernel side\<close>

definition EVENT_EXEC :: u8 where "EVENT_EXEC = 1"
definition EVENT_FORK :: u8 where "EVENT_FORK = 2"
definition EVENT_EXIT :: u8 where "EVENT_EXIT = 3"

definition MAX_ARGS_LEN :: nat where "MAX_ARGS_LEN = 256"

record pw_event =
  pw_pid :: u32
  pw_ppid :: u32
  pw_uid :: u32
  pw_gid :: u32
  pw_inum :: u32
  pw_exit_code :: u32
  pw_timestamp :: u64
  pw_type :: u8
  pw_comm :: "char list"
  pw_filename :: "char list"
  pw_args :: "char list"

text \<open>What the programs read of the current task. A null \<open>mm\<close> is \<open>None\<close>;
  \<open>user_mem a n\<close> is what \<open>bpf_probe_read_user\<close> leaves in the first \<open>n\<close> bytes of its
  destination when it reads at address \<open>a\<close>.\<close>

record mm_view =
  arg_start :: u64
  arg_end :: u64
  user_mem :: "u64 \<Rightarrow> nat \<Rightarrow> char list"

record pw_task =
  parent_tgid :: u32
  task_ns_inum :: u32
  task_exit_code :: u32
  task_mm :: "mm_view option"

definition get_ppid :: "pw_task \<Rightarrow> u32" where
  "get_ppid task = parent_tgid task"

definition get_ns_inum :: "pw_task \<Rightarrow> u32" where
  "get_ns_inum task = task_ns_inum task"

text \<open>The tracepoint records: \<open>raw_exec\<close> is the memory of the record, with the file name at
  the offset in the low half of \<open>data_loc_filename\<close>.\<close>

record exec_ctx =
  data_loc_filename :: u32
  raw_exec :: "char list"

record fork_ctx =
  child_pid :: u32
  parent_pid :: u32
  ctx_parent_comm :: "char list"

text \<open>The bytes of the command line that are read: the length is a signed 64-bit difference, cut at
  the size of the array.\<close>

definition args_len :: "mm_view \<Rightarrow> int" where
  "args_len mm = (let len = sint (arg_end mm - arg_start mm)
     in if int MAX_ARGS_LEN < len then int MAX_ARGS_LEN else len)"

definition read_args :: "pw_task \<Rightarrow> char list \<Rightarrow> char list" where
  "read_args task args =
     (case task_mm task of
        None \<Rightarrow> args
      | Some mm \<Rightarrow>
          (let len = args_len mm
           in if 0 < len
              then memcpy_into args (user_mem mm (arg_start mm) (nat len)) (nat len)
              else args))"

definition pw_handle_exec :: "pw_event probe_env \<Rightarrow> pw_task \<Rightarrow> exec_ctx \<Rightarrow> pw_event list" where
  "pw_handle_exec env task ctx =
     (case reserve env 0 of
        None \<Rightarrow> []
      | Some e0 \<Rightarrow>
          (let fname_off = unat (data_loc_filename ctx AND 0xFFFF)
           in [e0\<lparr>pw_type := EVENT_EXEC,
                  pw_timestamp := ktime_ns env 0,
                  pw_pid := cur_pid env,
                  pw_ppid := get_ppid task,
                  pw_uid := cur_uid env,
                  pw_gid := cur_gid env,
                  pw_inum := get_ns_inum task,
                  pw_comm := cur_comm env,
                  pw_filename := read_str_into (pw_filename e0) (drop fname_off (raw_exec ctx)),
                  pw_args := read_args task (pw_args e0)\<rparr>]))"

definition pw_handle_fork :: "pw_event probe_env \<Rightarrow> fork_ctx \<Rightarrow> pw_event list" where
  "pw_handle_fork env ctx =
     (case reserve env 0 of
        None \<Rightarrow> []
      | Some e0 \<Rightarrow>
          [e0\<lparr>pw_type := EVENT_FORK,
              pw_timestamp := ktime_ns env 0,
              pw_pid := child_pid ctx,
              pw_ppid := parent_pid ctx,
              pw_uid := cur_uid env,
              pw_gid := cur_gid env,
              pw_inum := 0,
              pw_exit_code := 0,
              pw_comm := read_str_into (pw_comm e0) (ctx_parent_comm ctx)\<rparr>])"

definition pw_handle_exit :: "pw_event probe_env \<Rightarrow> pw_task \<Rightarrow> pw_event list" where
  "pw_handle_exit env task =
     (case reserve env 0 of
        None \<Rightarrow> []
      | Some e0 \<Rightarrow>
          [e0\<lparr>pw_type := EVENT_EXIT,
              pw_timestamp := ktime_ns env 0,
              pw_pid := cur_pid env,
              pw_ppid := get_ppid task,
              pw_uid := cur_uid env,
              pw_gid := cur_gid env,
              pw_inum := get_ns_inum task,
              pw_exit_code := drop_bit 8 (task_exit_code task) AND 0xFF,
              pw_comm := cur_comm env\<rparr>])"

section \<open>User space\<close>

definition event_str :: "u8 \<Rightarrow> string" where
  "event_str t =
     (if t = EVENT_EXEC then ''EXEC'' else if t = EVENT_FORK then ''FORK''
      else if t = EVENT_EXIT then ''EXIT'' else ''????'')"

text \<open>\<open>sanitize_args\<close>: the loop over \<open>i < len - 1\<close>, in place. The record lies in the memory that
  \<open>ring_buffer__poll\<close> hands out; whether it may be written is the library's affair and a parameter,
  and \<open>None\<close> is the fault of a store into memory that is mapped for reading only.\<close>

fun sanitize_from :: "bool \<Rightarrow> nat \<Rightarrow> nat \<Rightarrow> char list \<Rightarrow> char list option" where
  "sanitize_from writable 0 i args = Some args"
| "sanitize_from writable (Suc n) i args =
     (if args ! i = NUL \<and> args ! (i + 1) \<noteq> NUL
      then (if writable then sanitize_from writable n (Suc i) (args[i := CHR '' '']) else None)
      else sanitize_from writable n (Suc i) args)"

definition sanitize_args :: "bool \<Rightarrow> char list \<Rightarrow> char list option" where
  "sanitize_args writable args = sanitize_from writable (length args - 1) 0 args"

text \<open>What \<open>%s\<close> prints of an array; \<open>None\<close> when it is not terminated and \<open>printf\<close> reads on
  behind it.\<close>

definition text_of :: "char list \<Rightarrow> string option" where
  "text_of a = (if NUL \<in> set a then Some (cstr a) else None)"

definition pw_prefix :: "(u64 \<Rightarrow> string) \<Rightarrow> pw_event \<Rightarrow> string" where
  "pw_prefix hms e =
     ''['' @ hms (pw_timestamp e div 1000000000) @ ''] '' @ padr 4 (event_str (pw_type e)) @
     ''  pid='' @ padr 6 (dec32 (pw_pid e)) @ '' ppid='' @ padr 6 (dec32 (pw_ppid e)) @
     '' uid='' @ padr 5 (dec32 (pw_uid e)) @ '' gid='' @ padr 5 (dec32 (pw_gid e)) @
     '' ns_inum='' @ padr 10 (dec32 (pw_inum e))"

definition pw_handle_event :: "bool \<Rightarrow> (u64 \<Rightarrow> string) \<Rightarrow> pw_event \<Rightarrow> string option" where
  "pw_handle_event writable hms e =
     Option.bind (sanitize_args writable (pw_args e)) (\<lambda>args.
     map_option (\<lambda>tail. pw_prefix hms e @ tail @ [newline])
       (if pw_type e = EVENT_EXEC
        then Option.bind (text_of (pw_filename e)) (\<lambda>file.
             map_option (\<lambda>args. ''  bin='' @ padr 30 file @ ''  args='' @ args) (text_of args))
        else if pw_type e = EVENT_FORK
        then map_option (\<lambda>comm. ''  parent_comm='' @ comm) (text_of (pw_comm e))
        else if pw_type e = EVENT_EXIT
        then map_option (\<lambda>comm. ''  comm='' @ padr 16 comm @ ''  exit_code='' @ sdec (pw_exit_code e))
               (text_of (pw_comm e))
        else Some []))"

section \<open>The argument vector\<close>

text \<open>The loop without its stores, and the in-place loop as a map over neighbours, for it decides on
  original bytes only.\<close>

fun join_from :: "nat \<Rightarrow> nat \<Rightarrow> char list \<Rightarrow> char list" where
  "join_from 0 i args = args"
| "join_from (Suc n) i args =
     join_from n (Suc i)
       (if args ! i = NUL \<and> args ! (i + 1) \<noteq> NUL then args[i := CHR '' ''] else args)"


lemma length_join_from [simp]: "length (join_from n i a) = length a"
  by (induction n i a rule: join_from.induct) auto


lemma sanitize_from_writable: "sanitize_from True n i a = Some (join_from n i a)"
  by (induction n arbitrary: i a) simp_all



text \<open>A recursive reading of the same result.\<close>

fun sanitize_list :: "char list \<Rightarrow> char list" where
  "sanitize_list (c # d # r) =
     (if c = NUL \<and> d \<noteq> NUL then CHR '' '' else c) # sanitize_list (d # r)"
| "sanitize_list r = r"

lemma length_sanitize_list [simp]: "length (sanitize_list a) = length a"
  by (induction a rule: sanitize_list.induct) auto




text \<open>The argument area of a process: every argument with its terminator.\<close>

definition argv_bytes :: "string list \<Rightarrow> char list" where
  "argv_bytes argv = concat (map (\<lambda>w. w @ [NUL]) argv)"





section \<open>Properties\<close>


lemma text_of_read_str: "dst \<noteq> [] \<Longrightarrow> text_of (read_str_into dst src) = Some (cstr (read_str_into dst src))"
  by (simp add: text_of_def read_str_into_def Let_def)


definition pw_sample_event :: "char \<Rightarrow> pw_event" where
  "pw_sample_event c =
     \<lparr>pw_pid = 9, pw_ppid = 9, pw_uid = 9, pw_gid = 9, pw_inum = 9, pw_exit_code = 9,
      pw_timestamp = 9, pw_type = 9, pw_comm = replicate 16 c, pw_filename = replicate 256 c,
      pw_args = replicate 256 c\<rparr>"

definition pw_sample_env :: "char \<Rightarrow> pw_event probe_env" where
  "pw_sample_env c =
     \<lparr>ktime_ns = (\<lambda>_. 0), pid_tgid = push_bit 32 42, uid_gid = 1000,
      cur_comm = ''ls'' @ replicate 14 NUL,
      reserve = (\<lambda>_. Some (pw_sample_event c)), map_ok = (\<lambda>_. True)\<rparr>"

definition pw_sample_task :: pw_task where
  "pw_sample_task =
     \<lparr>parent_tgid = 1, task_ns_inum = 7, task_exit_code = 256,
      task_mm = Some \<lparr>arg_start = 4096, arg_end = 4102,
                      user_mem = (\<lambda>_ _. argv_bytes [''ls'', ''-l''])\<rparr>\<rparr>"

definition pw_sample_ctx :: exec_ctx where
  "pw_sample_ctx = \<lparr>data_loc_filename = 4, raw_exec = ''____/bin/ls'' @ [NUL]\<rparr>"


text \<open>The leak on a concrete record, whose old bytes are letters up to the last two: they appear as
  arguments.\<close>

lemma pw_stale_arguments:
  "map (\<lambda>e. map_option (take 8)
       (Option.bind (sanitize_args True ((pw_args e)[254 := NUL, 255 := NUL])) text_of))
     (pw_handle_exec (pw_sample_env (CHR ''x'')) pw_sample_task pw_sample_ctx) = [Some ''ls -l xx'']"
  by code_simp

text \<open>Fork and exit lines are made from the kernel's data alone, where the record may be written: they do not depend on
  what it held before.\<close>

lemma sanitize_args_writable: "sanitize_args True a \<noteq> None"
  by (simp add: sanitize_args_def sanitize_from_writable)

lemma pw_fork_exit_no_stale:
  assumes "length (pw_comm e0) = 16" and "length (pw_comm e1) = 16"
  shows "map (pw_handle_event True hms) (pw_handle_fork (env\<lparr>reserve := \<lambda>_. Some e0\<rparr>) ctx) =
      map (pw_handle_event True hms) (pw_handle_fork (env\<lparr>reserve := \<lambda>_. Some e1\<rparr>) ctx) \<and>
    map (pw_handle_event True hms) (pw_handle_exit (env\<lparr>reserve := \<lambda>_. Some e0\<rparr>) task) =
      map (pw_handle_event True hms) (pw_handle_exit (env\<lparr>reserve := \<lambda>_. Some e1\<rparr>) task)"
proof -
  obtain a b where "sanitize_args True (pw_args e0) = Some a" "sanitize_args True (pw_args e1) = Some b"
    using sanitize_args_writable by blast
  moreover have "pw_comm e0 \<noteq> []" "pw_comm e1 \<noteq> []" using assms by auto
  ultimately show ?thesis
    using assms
    by (simp add: pw_handle_fork_def pw_handle_exit_def pw_handle_event_def pw_prefix_def text_of_read_str
        cstr_read_str_into EVENT_EXEC_def EVENT_FORK_def EVENT_EXIT_def Let_def env_simps)
qed

end
