(* ===== verification/Packet.thy ===== *)
theory Packet
  imports Bpf_Env
begin

text \<open>
  Packets as the TC programs see them, shared by \<open>pktrace\<close> and \<open>pksniff\<close>: the linear part
  between \<open>data\<close> and \<open>data_end\<close>, the length, and the helper \<open>bpf_skb_load_bytes\<close>,
  whose results are an argument of the model. The header views read the same bytes as the C
  structures; the hosts are little-endian.
\<close>

section \<open>Socket buffers\<close>

text \<open>\<open>skb_load off n\<close> is \<open>bpf_skb_load_bytes(skb, off, to, n)\<close>: the bytes stored, or
  \<open>None\<close> for a negative result.\<close>

record skb =
  skb_len :: u32
  skb_lin :: "u8 list"
  skb_load :: "u32 \<Rightarrow> nat \<Rightarrow> u8 list option"

text \<open>The documented contract: the buffer holds a frame, its linear part is a prefix, and a load
  succeeds exactly inside the frame.\<close>

definition load_holds :: "(u32 \<Rightarrow> nat \<Rightarrow> u8 list option) \<Rightarrow> u8 list \<Rightarrow> bool" where
  "load_holds load fr \<longleftrightarrow>
     (\<forall>off n. load off n =
        (if unat off + n \<le> length fr then Some (slice (unat off) n fr) else None))"

definition skb_holds :: "skb \<Rightarrow> u8 list \<Rightarrow> bool" where
  "skb_holds s fr \<longleftrightarrow>
     unat (skb_len s) = length fr \<and> prefix (skb_lin s) fr \<and> load_holds (skb_load s) fr"

text \<open>A concrete buffer with a given frame and linear length.\<close>

definition frame_load :: "u8 list \<Rightarrow> u32 \<Rightarrow> nat \<Rightarrow> u8 list option" where
  "frame_load fr off n =
     (if unat off + n \<le> length fr then Some (slice (unat off) n fr) else None)"

definition frame_skb :: "u8 list \<Rightarrow> nat \<Rightarrow> skb" where
  "frame_skb fr k =
     \<lparr>skb_len = word_of_nat (length fr), skb_lin = take k fr, skb_load = frame_load fr\<rparr>"

lemma frame_load_holds: "load_holds (frame_load fr) fr"
  by (simp add: load_holds_def frame_load_def)

lemma frame_skb_holds: "length fr < 2 ^ 32 \<Longrightarrow> skb_holds (frame_skb fr k) fr"
  by (simp add: skb_holds_def frame_skb_def frame_load_holds unat_of_nat take_is_prefix)

text \<open>The interface the parsers rely on.\<close>

locale skb_access =
  fixes load :: "u32 \<Rightarrow> nat \<Rightarrow> u8 list option" and fr :: "u8 list"
  assumes load_holds: "load_holds load fr"
begin

lemma load_in: "unat off + n \<le> length fr \<Longrightarrow> load off n = Some (slice (unat off) n fr)"
  using load_holds by (simp add: load_holds_def)

lemma load_out: "length fr < unat off + n \<Longrightarrow> load off n = None"
  using load_holds by (simp add: load_holds_def)

lemma load_SomeD: "load off n = Some bs \<Longrightarrow> bs = slice (unat off) n fr \<and> unat off + n \<le> length fr"
  using load_holds by (auto simp: load_holds_def split: if_splits)

lemma load_length: "load off n = Some bs \<Longrightarrow> length bs = n"
  using load_SomeD by fastforce

lemma load_byte: "unat off < length fr \<Longrightarrow> load off 1 = Some [fr ! unat off]"
  using load_in [of off 1] by (simp add: slice_def take_Suc_conv_app_nth hd_drop_conv_nth take_Suc)

lemma load_at:
  assumes "fr = pre @ x @ rest" and "length pre < 2 ^ 32" and "length x = n"
  shows "load (word_of_nat (length pre)) n = Some x"
proof -
  have "unat (word_of_nat (length pre) :: u32) = length pre"
    using assms(2) by (simp add: unat_of_nat take_bit_nat_eq_self)
  then show ?thesis
    using load_in [of "word_of_nat (length pre)" n] assms by (simp add: slice_def)
qed

end

interpretation frame_buf: skb_access "frame_load fr" fr for fr
  by unfold_locales (rule frame_load_holds)

section \<open>Headers\<close>

definition ETH_P_IP :: u16 where "ETH_P_IP = 0x0800"
definition ETH_P_ARP :: u16 where "ETH_P_ARP = 0x0806"
definition IPPROTO_ICMP :: u8 where "IPPROTO_ICMP = 1"
definition IPPROTO_TCP :: u8 where "IPPROTO_TCP = 6"
definition IPPROTO_UDP :: u8 where "IPPROTO_UDP = 17"

text \<open>\<open>sizeof\<close> of the header structures.\<close>

definition ETH_HLEN :: nat where "ETH_HLEN = 14"
definition IPHDR_LEN :: nat where "IPHDR_LEN = 20"
definition TCPHDR_LEN :: nat where "TCPHDR_LEN = 20"
definition UDPHDR_LEN :: nat where "UDPHDR_LEN = 8"

lemmas header_sizes [simp] = ETH_HLEN_def IPHDR_LEN_def TCPHDR_LEN_def UDPHDR_LEN_def

text \<open>Fields of \<open>struct ethhdr\<close> and \<open>struct iphdr\<close>, over the linear bytes.\<close>

definition eth_proto :: "u8 list \<Rightarrow> u16" where
  "eth_proto d = be16 (d ! 12) (d ! 13)"

definition ip_ihl :: "u8 list \<Rightarrow> u8" where "ip_ihl d = d ! 14 AND 0xF"
definition ip_tot_len :: "u8 list \<Rightarrow> u16" where "ip_tot_len d = be16 (d ! 16) (d ! 17)"
definition ip_frag_off :: "u8 list \<Rightarrow> u16" where "ip_frag_off d = be16 (d ! 20) (d ! 21)"
definition ip_ttl :: "u8 list \<Rightarrow> u8" where "ip_ttl d = d ! 22"
definition ip_protocol :: "u8 list \<Rightarrow> u8" where "ip_protocol d = d ! 23"
definition ip_saddr :: "u8 list \<Rightarrow> u32" where "ip_saddr d = le32 (d ! 26) (d ! 27) (d ! 28) (d ! 29)"
definition ip_daddr :: "u8 list \<Rightarrow> u32" where "ip_daddr d = le32 (d ! 30) (d ! 31) (d ! 32) (d ! 33)"

text \<open>Fields of the transport header at offset \<open>o\<close>.\<close>

definition l4_source :: "u8 list \<Rightarrow> nat \<Rightarrow> u16" where "l4_source d p = be16 (d ! p) (d ! (p + 1))"
definition l4_dest :: "u8 list \<Rightarrow> nat \<Rightarrow> u16" where "l4_dest d p = be16 (d ! (p + 2)) (d ! (p + 3))"
definition tcp_doff :: "u8 list \<Rightarrow> nat \<Rightarrow> u8" where "tcp_doff d p = drop_bit 4 (d ! (p + 12))"
definition tcp_flag_byte :: "u8 list \<Rightarrow> nat \<Rightarrow> u8" where "tcp_flag_byte d p = d ! (p + 13)"

lemma unat_nibble: "unat ((b :: u8) AND 0xF) < 16"
  using word_and_le1 [of b 15] by (simp add: word_le_nat_alt)

lemma unat_high_nibble: "unat (drop_bit 4 (b :: u8)) < 16"
proof -
  have "unat b div 16 < 16" using unat_u8_lt [of b] by simp
  then show ?thesis by (simp add: drop_bit_eq_div unat_div_distrib)
qed

lemma unat_times4: "unat (b :: u8) < 16 \<Longrightarrow> unat (ucast b * 4 :: u16) = 4 * unat b"
  by (simp add: unat_word_ariths)

text \<open>\<open>inet_ntop(AF_INET, ...)\<close> of an address in network byte order.\<close>

definition ip_byte :: "u32 \<Rightarrow> nat \<Rightarrow> nat" where
  "ip_byte ip k = (unat ip div 256 ^ k) mod 256"

definition ip_str :: "u32 \<Rightarrow> string" where
  "ip_str ip = udec (ip_byte ip 0) @ ''.'' @ udec (ip_byte ip 1) @ ''.'' @
     udec (ip_byte ip 2) @ ''.'' @ udec (ip_byte ip 3)"

lemma length_ip_str: "length (ip_str ip) \<le> 15"
proof -
  have "length (udec (ip_byte ip k)) \<le> 3" for k
    by (rule length_udec_bound) (simp_all add: ip_byte_def order.strict_trans1 [OF less_imp_le_nat])
  from this [of 0] this [of 1] this [of 2] this [of 3] show ?thesis
    by (simp add: ip_str_def)
qed

text \<open>\<open>payload_len\<close>, as both programs compute it: in 32 bits, then cut to 16.\<close>

definition payload_len_of :: "u32 \<Rightarrow> u16 \<Rightarrow> u16" where
  "payload_len_of len off =
     (if (ucast off :: u32) < len then ucast (len - ucast off) else 0)"

section \<open>Reference frames\<close>

text \<open>An encoder of Ethernet frames with an IPv4 header, options included, and of TCP and UDP
  headers, byte by byte as the protocols define them; the parsers are checked against it.\<close>

record ip4 =
  h_mac :: "u8 list"
  h_tos :: u8
  h_tot0 :: u8
  h_tot1 :: u8
  h_id :: "u8 list"
  h_frag0 :: u8
  h_frag1 :: u8
  h_ttl :: u8
  h_proto :: u8
  h_check :: "u8 list"
  h_src :: "u8 list"
  h_dst :: "u8 list"
  h_opts :: "u8 list"

definition ip4_wf :: "ip4 \<Rightarrow> bool" where
  "ip4_wf h \<longleftrightarrow> length (h_mac h) = 12 \<and> length (h_id h) = 2 \<and> length (h_check h) = 2 \<and>
     length (h_src h) = 4 \<and> length (h_dst h) = 4 \<and> 4 dvd length (h_opts h) \<and> length (h_opts h) \<le> 40"

definition eth_ip_header :: "ip4 \<Rightarrow> u8 list" where
  "eth_ip_header h =
     h_mac h @ [0x08, 0x00, 0x40 OR word_of_nat (5 + length (h_opts h) div 4), h_tos h,
                h_tot0 h, h_tot1 h] @ h_id h @ [h_frag0 h, h_frag1 h, h_ttl h, h_proto h] @
     h_check h @ h_src h @ h_dst h @ h_opts h"

record tcp4 =
  t_sport0 :: u8
  t_sport1 :: u8
  t_dport0 :: u8
  t_dport1 :: u8
  t_seq_ack :: "u8 list"
  t_reserved :: u8
  t_flags :: u8
  t_tail :: "u8 list"
  t_opts :: "u8 list"

definition tcp4_wf :: "tcp4 \<Rightarrow> bool" where
  "tcp4_wf t \<longleftrightarrow> length (t_seq_ack t) = 8 \<and> unat (t_reserved t) < 16 \<and> length (t_tail t) = 6 \<and>
     4 dvd length (t_opts t) \<and> length (t_opts t) \<le> 40"

definition tcp_header :: "tcp4 \<Rightarrow> u8 list" where
  "tcp_header t =
     [t_sport0 t, t_sport1 t, t_dport0 t, t_dport1 t] @ t_seq_ack t @
     [push_bit 4 (word_of_nat (5 + length (t_opts t) div 4)) OR t_reserved t, t_flags t] @
     t_tail t @ t_opts t"

definition udp_header :: "u8 \<Rightarrow> u8 \<Rightarrow> u8 \<Rightarrow> u8 \<Rightarrow> u8 list \<Rightarrow> u8 list" where
  "udp_header s0 s1 d0 d1 len_check = [s0, s1, d0, d1] @ len_check"

lemma quarter_cases: "4 dvd (n :: nat) \<Longrightarrow> n \<le> 40 \<Longrightarrow> \<exists>k \<le> 10. n = 4 * k"
  by (auto simp: dvd_def)

lemma le_10_cases:
  "k \<le> (10 :: nat) \<Longrightarrow> k \<in> {0, 1, 2, 3, 4, 5, 6, 7, 8, 9, 10}"
  by (simp add: le_Suc_eq numeral_eq_Suc)

lemma ihl_nibble:
  "k \<le> 10 \<Longrightarrow> unat ((0x40 OR word_of_nat (5 + k)) AND 0xF :: u8) = 5 + k"
  using le_10_cases [of k] by auto

lemma doff_nibble:
  assumes "k \<le> 10" and "unat r < 16"
  shows "unat (drop_bit 4 (push_bit 4 (word_of_nat (5 + k)) OR r :: u8)) = 5 + k"
proof -
  have "drop_bit 4 r = 0" using assms(2)
    by (simp add: word_unat_eq_iff drop_bit_eq_div unat_div_distrib)
  then have "drop_bit 4 (push_bit 4 (word_of_nat (5 + k)) OR r :: u8) =
      drop_bit 4 (push_bit 4 (word_of_nat (5 + k)))"
    by simp
  also have "unat \<dots> = 5 + k" using le_10_cases [OF assms(1)] by auto
  finally show ?thesis .
qed

lemma length_eth_ip_header:
  "ip4_wf h \<Longrightarrow> length (eth_ip_header h) = 34 + length (h_opts h)"
  by (simp add: ip4_wf_def eth_ip_header_def)

lemma length_tcp_header: "tcp4_wf t \<Longrightarrow> length (tcp_header t) = 20 + length (t_opts t)"
  by (simp add: tcp4_wf_def tcp_header_def)

lemma eth_ip_fields:
  assumes "ip4_wf h"
  shows "eth_proto (eth_ip_header h @ r) = ETH_P_IP"
    "ip_tot_len (eth_ip_header h @ r) = be16 (h_tot0 h) (h_tot1 h)"
    "ip_frag_off (eth_ip_header h @ r) = be16 (h_frag0 h) (h_frag1 h)"
    "ip_ttl (eth_ip_header h @ r) = h_ttl h"
    "ip_protocol (eth_ip_header h @ r) = h_proto h"
    "ip_saddr (eth_ip_header h @ r) = le32 (h_src h ! 0) (h_src h ! 1) (h_src h ! 2) (h_src h ! 3)"
    "ip_daddr (eth_ip_header h @ r) = le32 (h_dst h ! 0) (h_dst h ! 1) (h_dst h ! 2) (h_dst h ! 3)"
    "unat (ucast (ip_ihl (eth_ip_header h @ r)) * 4 :: u16) = 20 + length (h_opts h)"
proof -
  note wf = assms [unfolded ip4_wf_def]
  obtain k where k: "k \<le> 10" "length (h_opts h) = 4 * k" using wf quarter_cases by blast
  have "ip_ihl (eth_ip_header h @ r) = (0x40 OR word_of_nat (5 + k)) AND 0xF"
    using wf k by (simp add: ip_ihl_def eth_ip_header_def nth_append)
  then have "unat (ip_ihl (eth_ip_header h @ r)) = 5 + k" using ihl_nibble [OF k(1)] by simp
  then show "unat (ucast (ip_ihl (eth_ip_header h @ r)) * 4 :: u16) = 20 + length (h_opts h)"
    using k by (simp add: unat_times4)
  show "eth_proto (eth_ip_header h @ r) = ETH_P_IP"
    using wf by (simp add: eth_proto_def ETH_P_IP_def eth_ip_header_def nth_append be16_def)
qed (use assms in \<open>simp_all add: ip4_wf_def ip_tot_len_def ip_frag_off_def ip_ttl_def
      ip_protocol_def ip_saddr_def ip_daddr_def eth_ip_header_def nth_append\<close>)

lemma tcp_fields:
  assumes "tcp4_wf t" and "length pre = p"
  shows "l4_source (pre @ tcp_header t @ r) p = be16 (t_sport0 t) (t_sport1 t)"
    "l4_dest (pre @ tcp_header t @ r) p = be16 (t_dport0 t) (t_dport1 t)"
    "tcp_flag_byte (pre @ tcp_header t @ r) p = t_flags t"
    "unat (ucast (tcp_doff (pre @ tcp_header t @ r) p) * 4 :: u16) = 20 + length (t_opts t)"
proof -
  note wf = assms(1) [unfolded tcp4_wf_def]
  obtain k where k: "k \<le> 10" "length (t_opts t) = 4 * k" using wf quarter_cases by blast
  have "(pre @ tcp_header t @ r) ! (p + 12) = tcp_header t ! 12"
    using assms by (simp add: nth_append length_tcp_header)
  then have "tcp_doff (pre @ tcp_header t @ r) p =
      drop_bit 4 (push_bit 4 (word_of_nat (5 + k)) OR t_reserved t)"
    using wf k by (simp add: tcp_doff_def tcp_header_def nth_append)
  then have "unat (tcp_doff (pre @ tcp_header t @ r) p) = 5 + k"
    using doff_nibble [OF k(1)] wf by simp
  then show "unat (ucast (tcp_doff (pre @ tcp_header t @ r) p) * 4 :: u16) = 20 + length (t_opts t)"
    using k by (simp add: unat_times4)
qed (use assms in \<open>simp_all add: tcp4_wf_def l4_source_def l4_dest_def tcp_flag_byte_def
      tcp_header_def nth_append\<close>)

lemma udp_fields:
  assumes "length pre = p"
  shows "l4_source (pre @ udp_header s0 s1 d0 d1 lc @ r) p = be16 s0 s1"
    "l4_dest (pre @ udp_header s0 s1 d0 d1 lc @ r) p = be16 d0 d1"
  using assms by (simp_all add: l4_source_def l4_dest_def udp_header_def nth_append)

text \<open>\<open>l4_encodes h l4 sp dp\<close>: the bytes \<open>l4\<close> are a TCP or UDP header with these ports, as the
  protocol field of \<open>h\<close> says.\<close>

definition l4_encodes :: "ip4 \<Rightarrow> u8 list \<Rightarrow> u16 \<Rightarrow> u16 \<Rightarrow> bool" where
  "l4_encodes h l4 sp dp \<longleftrightarrow>
     (\<exists>t. h_proto h = IPPROTO_TCP \<and> tcp4_wf t \<and> l4 = tcp_header t \<and>
        sp = be16 (t_sport0 t) (t_sport1 t) \<and> dp = be16 (t_dport0 t) (t_dport1 t)) \<or>
     (\<exists>s0 s1 d0 d1 lc. h_proto h = IPPROTO_UDP \<and> length lc = 4 \<and> l4 = udp_header s0 s1 d0 d1 lc \<and>
        sp = be16 s0 s1 \<and> dp = be16 d0 d1)"

lemma l4_encodes_length: "l4_encodes h l4 sp dp \<Longrightarrow> length l4 \<le> 60"
  by (auto simp: l4_encodes_def length_tcp_header tcp4_wf_def udp_header_def)

lemma payload_len_exact:
  assumes "unat off + n = unat len" and "n < 2 ^ 16"
  shows "unat (payload_len_of len off) = n"
proof (cases "n = 0")
  case True
  then show ?thesis using assms by (simp add: payload_len_of_def word_less_nat_alt)
next
  case False
  then have "(ucast off :: u32) < len" using assms by (simp add: word_less_nat_alt)
  moreover have "unat (len - ucast off) = n"
    using assms by (subst unat_sub) (simp_all add: word_le_nat_alt)
  ultimately show ?thesis
    using assms(2) by (simp add: payload_len_of_def unsigned_ucast_eq take_bit_nat_eq_self)
qed

text \<open>Sample frames for the witnesses: a UDP datagram to port 53 and its environment.\<close>

definition sample_ip4 :: "u8 \<Rightarrow> ip4" where
  "sample_ip4 proto =
     \<lparr>h_mac = replicate 12 2, h_tos = 0, h_tot0 = 0, h_tot1 = 100, h_id = [0, 0], h_frag0 = 0x40,
      h_frag1 = 0, h_ttl = 64, h_proto = proto, h_check = [0, 0], h_src = [10, 0, 0, 1],
      h_dst = [8, 8, 8, 8], h_opts = []\<rparr>"

definition sample_udp_frame :: "u8 list" where
  "sample_udp_frame =
     eth_ip_header (sample_ip4 IPPROTO_UDP) @ udp_header 0xC0 0 0 53 [0, 0, 0, 0] @ replicate 30 7"

lemma sample_ip4_wf: "ip4_wf (sample_ip4 p)"
  by (simp add: ip4_wf_def sample_ip4_def)

lemma length_sample_udp_frame: "length sample_udp_frame = 72"
  by (simp add: sample_udp_frame_def eth_ip_header_def sample_ip4_def udp_header_def)

end
