(* ===== verification/Pcap.thy ===== *)
theory Pcap
  imports Bpf_Env
begin

text \<open>
  The capture files both packet tools write (\<open>write_pcap_global_header\<close>,
  \<open>write_pcap_record\<close> in \<open>pktrace_v2/pktrace.c\<close>, \<open>pcap_write_global_header\<close>,
  \<open>pcap_write_record\<close> in \<open>pksniff/Pksniff.c\<close>) on a little-endian host, and a reader of the
  format against which they are checked.
\<close>

section \<open>Writers\<close>

definition pcap_global_header :: "nat \<Rightarrow> u8 list" where
  "pcap_global_header snaplen =
     le_bytes 4 0xa1b2c3d4 @ le_bytes 2 2 @ le_bytes 2 4 @ le_bytes 4 0 @ le_bytes 4 0 @
     le_bytes 4 snaplen @ le_bytes 4 1"

text \<open>A record: the 16-byte header, then \<open>fwrite(e->packet, 1, incl_len, fp)\<close>, which reads
  outside the array (\<open>None\<close>) when \<open>incl_len\<close> exceeds it. The time of day is an
  argument.\<close>

definition pcap_record :: "nat \<Rightarrow> nat \<Rightarrow> u32 \<Rightarrow> u32 \<Rightarrow> u8 list \<Rightarrow> u8 list option" where
  "pcap_record tv_sec tv_usec cap_len packet_len packet =
     (if unat cap_len \<le> length packet
      then Some (le_bytes 4 (tv_sec mod 2 ^ 32) @ le_bytes 4 (tv_usec mod 2 ^ 32) @
                 le_bytes 4 (unat cap_len) @ le_bytes 4 (unat packet_len) @
                 take (unat cap_len) packet)
      else None)"

section \<open>A reader\<close>

record pcap_entry =
  ts_sec :: nat
  ts_usec :: nat
  orig_len :: nat
  frame_bytes :: "u8 list"

function read_records :: "u8 list \<Rightarrow> pcap_entry list option" where
  "read_records bs =
     (if bs = [] then Some []
      else if length bs < 16 then None
      else (let incl = le_value (slice 8 4 bs)
            in if length bs < 16 + incl then None
               else map_option
                 (\<lambda>rs. \<lparr>ts_sec = le_value (slice 0 4 bs), ts_usec = le_value (slice 4 4 bs),
                        orig_len = le_value (slice 12 4 bs), frame_bytes = slice 16 incl bs\<rparr> # rs)
                 (read_records (drop (16 + incl) bs))))"
  by pat_completeness auto
termination by (relation "measure length") auto

declare read_records.simps [simp del]

definition read_pcap :: "u8 list \<Rightarrow> (nat \<times> pcap_entry list) option" where
  "read_pcap bs =
     (if length bs < 24 \<or> le_value (slice 0 4 bs) \<noteq> 0xa1b2c3d4 then None
      else map_option (\<lambda>rs. (le_value (slice 16 4 bs), rs)) (read_records (drop 24 bs)))"

lemma slice_zero: "length xs = n \<Longrightarrow> slice 0 n (xs @ ys) = xs"
  by (simp add: slice_def)

lemma slice_skip: "length xs \<le> off \<Longrightarrow> slice off n (xs @ ys) = slice (off - length xs) n ys"
  by (simp add: slice_def)

lemma le_value_le_bytes4: "x < 2 ^ 32 \<Longrightarrow> le_value (le_bytes 4 x) = x"
  by (rule le_value_le_bytes) simp

lemma read_record_cons:
  assumes "pcap_record s u c l p = Some r"
  shows "read_records (r @ rest) =
    map_option (\<lambda>rs. \<lparr>ts_sec = s mod 2 ^ 32, ts_usec = u mod 2 ^ 32, orig_len = unat l,
                     frame_bytes = take (unat c) p\<rparr> # rs) (read_records rest)"
proof -
  let ?p = "take (unat c) p"
  have c: "unat c \<le> length p" and
    r: "r = le_bytes 4 (s mod 2 ^ 32) @ le_bytes 4 (u mod 2 ^ 32) @ le_bytes 4 (unat c) @
      le_bytes 4 (unat l) @ ?p"
    using assms by (auto simp: pcap_record_def split: if_splits)
  have lr: "length r = 16 + unat c" using c by (simp add: r)
  have fields: "slice 0 4 (r @ rest) = le_bytes 4 (s mod 2 ^ 32)"
    "slice 4 4 (r @ rest) = le_bytes 4 (u mod 2 ^ 32)"
    "slice 8 4 (r @ rest) = le_bytes 4 (unat c)"
    "slice 12 4 (r @ rest) = le_bytes 4 (unat l)"
    "slice 16 (unat c) (r @ rest) = ?p"
    using c by (simp_all add: r slice_zero slice_skip)
  have vals: "le_value (le_bytes 4 (s mod 2 ^ 32)) = s mod 2 ^ 32"
    "le_value (le_bytes 4 (u mod 2 ^ 32)) = u mod 2 ^ 32"
    "le_value (le_bytes 4 (unat c)) = unat c" "le_value (le_bytes 4 (unat l)) = unat l"
    using unat_u32_lt [of c] unat_u32_lt [of l] by (simp_all add: le_value_le_bytes4)
  have "drop (16 + unat c) (r @ rest) = rest" using lr by simp
  then show ?thesis
    using lr fields vals by (subst read_records.simps) (auto simp: Let_def)
qed

text \<open>A file of records reads back as the captures that were written.\<close>

lemma read_pcap_written:
  assumes "snap < 2 ^ 32"
    and "list_all2 (\<lambda>r (s, u, c, l, p). pcap_record s u c l p = Some r) rs caps"
  shows "read_pcap (pcap_global_header snap @ concat rs) =
    Some (snap, map (\<lambda>(s, u, c, l, p). \<lparr>ts_sec = s mod 2 ^ 32, ts_usec = u mod 2 ^ 32,
      orig_len = unat l, frame_bytes = take (unat c) p\<rparr>) caps)"
proof -
  have recs: "read_records (concat rs) =
    Some (map (\<lambda>(s, u, c, l, p). \<lparr>ts_sec = s mod 2 ^ 32, ts_usec = u mod 2 ^ 32,
      orig_len = unat l, frame_bytes = take (unat c) p\<rparr>) caps)"
    using assms(2)
  proof (induction rs caps rule: list_all2_induct)
    case Nil
    then show ?case by (simp add: read_records.simps [of "[]"])
  next
    case (Cons r rs cap caps)
    then show ?case by (auto simp: read_record_cons split: prod.splits)
  qed
  let ?h = "pcap_global_header snap"
  have h: "length ?h = 24" by (simp add: pcap_global_header_def)
  have "slice 0 4 (?h @ concat rs) = le_bytes 4 0xa1b2c3d4"
    "slice 16 4 (?h @ concat rs) = le_bytes 4 snap"
    by (simp_all add: pcap_global_header_def slice_zero slice_skip)
  then show ?thesis
    using h recs assms(1) by (simp add: read_pcap_def le_value_le_bytes4)
qed

end
