(* ===== verification/Pktrace.thy ===== *)
theory Pktrace
  imports Packet Pcap
begin

text \<open>
  \<open>pktrace\<close>: the TC ingress program (\<open>pktrace_v2/pktrace.bpf.c\<close>) and the user-space side
  that prints, logs and stores its events (\<open>pktrace_v2/pktrace.c\<close>).
\<close>

section \<open>Kernel side\<close>

definition PT_MAX_CAPTURE_BYTES :: nat where "PT_MAX_CAPTURE_BYTES = 64"

record pt_event =
  pt_packet_len :: u32
  pt_cap_len :: u32
  pt_src_ip :: u32
  pt_dst_ip :: u32
  pt_src_port :: u16
  pt_dst_port :: u16
  pt_l4_off :: u16
  pt_payload_off :: u16
  pt_payload_len :: u16
  pt_protocol :: u8
  pt_reserved :: "u8 list"
  pt_packet :: "u8 list"

text \<open>The transport header: ports and payload offset, or \<open>None\<close> where the program returns
  because the header leaves the linear data. \<open>d\<close> are the linear bytes.\<close>

definition pt_l4 :: "u8 list \<Rightarrow> u16 \<Rightarrow> (u16 \<times> u16 \<times> u16) option" where
  "pt_l4 d ip_hdr_len =
     (let l4_off = 14 + ip_hdr_len; p = unat l4_off
      in if ip_protocol d = IPPROTO_TCP
         then (if length d < p + TCPHDR_LEN then None
               else (let h0 = ucast (tcp_doff d p) * 4;
                         tcp_hdr_len = (if unat h0 < TCPHDR_LEN then 20 else h0)
                     in if length d < p + unat tcp_hdr_len then None
                        else Some (l4_source d p, l4_dest d p, l4_off + tcp_hdr_len)))
         else if ip_protocol d = IPPROTO_UDP
         then (if length d < p + UDPHDR_LEN then None
               else Some (l4_source d p, l4_dest d p, l4_off + 8))
         else Some (0, 0, l4_off))"

text \<open>The Ethernet and IPv4 checks: the length of the IP header of an acceptable packet.\<close>

definition pt_ip_hdr :: "u8 list \<Rightarrow> u16 option" where
  "pt_ip_hdr d =
     (if length d < ETH_HLEN then None
      else if eth_proto d \<noteq> ETH_P_IP then None
      else if length d < ETH_HLEN + IPHDR_LEN then None
      else (let ip_hdr_len = ucast (ip_ihl d) * 4
            in if unat ip_hdr_len < IPHDR_LEN then None
               else if length d < ETH_HLEN + unat ip_hdr_len then None
               else Some ip_hdr_len))"

definition pktrace_fn :: "pt_event probe_env \<Rightarrow> skb \<Rightarrow> pt_event list" where
  "pktrace_fn env s =
     (let d = skb_lin s in
      case pt_ip_hdr d of
        None \<Rightarrow> []
      | Some ip_hdr_len \<Rightarrow>
          (case pt_l4 d ip_hdr_len of
             None \<Rightarrow> []
           | Some (src_port, dst_port, payload_off) \<Rightarrow>
               (case reserve env 0 of
                  None \<Rightarrow> []
                | Some e0 \<Rightarrow>
                    (let e = e0\<lparr>pt_packet_len := skb_len s,
                           pt_cap_len := (if word_of_nat PT_MAX_CAPTURE_BYTES < skb_len s
                                          then word_of_nat PT_MAX_CAPTURE_BYTES else skb_len s),
                           pt_src_ip := ip_saddr d,
                           pt_dst_ip := ip_daddr d,
                           pt_src_port := src_port,
                           pt_dst_port := dst_port,
                           pt_l4_off := 14 + ip_hdr_len,
                           pt_payload_off := payload_off,
                           pt_protocol := ip_protocol d,
                           pt_payload_len := payload_len_of (skb_len s) payload_off\<rparr>
                     in case skb_load s 0 PT_MAX_CAPTURE_BYTES of
                          None \<Rightarrow> []
                        | Some tmp \<Rightarrow> [e\<lparr>pt_packet := tmp\<rparr>]))))"

section \<open>User space\<close>

definition proto_to_str :: "u8 \<Rightarrow> string" where
  "proto_to_str proto = (if proto = 6 then ''TCP'' else if proto = 17 then ''UDP'' else ''OTHER'')"

fun print_hex_bytes :: "u8 list \<Rightarrow> string" where
  "print_hex_bytes [] = []"
| "print_hex_bytes [b] = padz 2 (uhex (unat b))"
| "print_hex_bytes (b # bs) = padz 2 (uhex (unat b)) @ CHR '' '' # print_hex_bytes bs"

definition port_buf :: "u16 \<Rightarrow> string" where
  "port_buf p = (if p \<noteq> 0 then dec32 p else ''-'')"

record output_cfg =
  cfg_log :: bool
  cfg_pcap :: bool
  payload_preview :: nat

text \<open>What one event writes: to the terminal, to the log and to the capture file.\<close>

record pt_output =
  out_term :: string
  out_log :: string
  out_pcap :: "u8 list"

definition payload_avail :: "pt_event \<Rightarrow> nat" where
  "payload_avail e =
     (if (ucast (pt_payload_off e) :: u32) < pt_cap_len e
      then unat (pt_cap_len e - ucast (pt_payload_off e)) else 0)"

definition payload_show :: "output_cfg \<Rightarrow> pt_event \<Rightarrow> nat" where
  "payload_show cfg e =
     (if payload_preview cfg < payload_avail e then payload_preview cfg else payload_avail e)"

definition pt_head :: "pt_event \<Rightarrow> string" where
  "pt_head e =
     padr 6 (proto_to_str (pt_protocol e)) @ '' '' @ ip_str (pt_src_ip e) @ '':'' @
     padr 5 (port_buf (pt_src_port e)) @ '' -> '' @ ip_str (pt_dst_ip e) @ '':'' @
     padr 5 (port_buf (pt_dst_port e)) @ ''  pkt='' @ dec32 (pt_packet_len e) @
     '' cap='' @ dec32 (pt_cap_len e) @ '' payload='' @ udec (payload_avail e)"

text \<open>\<open>None\<close> is a read behind the captured bytes.\<close>

definition pt_data :: "output_cfg \<Rightarrow> pt_event \<Rightarrow> string option" where
  "pt_data cfg e =
     (let off = unat (pt_payload_off e); n = payload_show cfg e
      in if n = 0 then Some []
         else if off + n \<le> length (pt_packet e)
         then Some (''  data='' @ print_hex_bytes (slice off n (pt_packet e)))
         else None)"

text \<open>What is printed on the terminal, and what the second group of calls writes to the log.\<close>

definition pt_term_line :: "output_cfg \<Rightarrow> pt_event \<Rightarrow> string option" where
  "pt_term_line cfg e = map_option (\<lambda>data. pt_head e @ data @ [newline]) (pt_data cfg e)"

definition pt_log_line :: "output_cfg \<Rightarrow> pt_event \<Rightarrow> string option" where
  "pt_log_line cfg e =
     (let off = unat (pt_payload_off e); n = payload_show cfg e;
          head = padr 6 (proto_to_str (pt_protocol e)) @ '' '' @
            ip_str (pt_src_ip e) @ '':'' @ padr 5 (port_buf (pt_src_port e)) @ '' -> '' @
            ip_str (pt_dst_ip e) @ '':'' @ padr 5 (port_buf (pt_dst_port e)) @
            ''  pkt='' @ dec32 (pt_packet_len e) @ '' cap='' @ dec32 (pt_cap_len e) @
            '' payload='' @ udec (payload_avail e)
      in if 0 < n
         then if off + n \<le> length (pt_packet e)
              then Some (head @ ''  data='' @ print_hex_bytes (slice off n (pt_packet e)) @ [newline])
              else None
         else Some (head @ [newline]))"

definition pt_handle_event ::
  "output_cfg \<Rightarrow> nat \<Rightarrow> nat \<Rightarrow> pt_event \<Rightarrow> pt_output option" where
  "pt_handle_event cfg tv_sec tv_usec e =
     Option.bind (pt_term_line cfg e) (\<lambda>line.
     Option.bind (if cfg_log cfg then pt_log_line cfg e else Some []) (\<lambda>log.
     Option.bind (if cfg_pcap cfg
         then pcap_record tv_sec tv_usec (pt_cap_len e) (pt_packet_len e) (pt_packet e) else Some []) (\<lambda>r.
       Some \<lparr>out_term = line, out_log = log, out_pcap = r\<rparr>)))"

text \<open>The \<open>--payload\<close> option: \<open>strtoul\<close>, then the bound.\<close>

definition preview_of :: "nat \<Rightarrow> nat" where
  "preview_of n = (if PT_MAX_CAPTURE_BYTES < n then PT_MAX_CAPTURE_BYTES else n)"

section \<open>Capture\<close>

lemma pktrace_fn_eventE:
  assumes "e \<in> set (pktrace_fn env s)" and "skb_holds s fr"
  obtains e0 ihl sp dp po where "reserve env 0 = Some e0" "pt_ip_hdr (skb_lin s) = Some ihl"
    "pt_l4 (skb_lin s) ihl = Some (sp, dp, po)" "64 \<le> length fr"
    "pktrace_fn env s = [e]" "pt_packet e = take 64 fr" "pt_cap_len e = 64"
    "pt_packet_len e = skb_len s" "pt_src_ip e = ip_saddr (skb_lin s)"
    "pt_dst_ip e = ip_daddr (skb_lin s)" "pt_src_port e = sp" "pt_dst_port e = dp"
    "pt_l4_off e = 14 + ihl" "pt_payload_off e = po" "pt_protocol e = ip_protocol (skb_lin s)"
    "pt_payload_len e = payload_len_of (skb_len s) po"
proof -
  have acc: "skb_access (skb_load s) fr"
    using assms(2) by unfold_locales (simp add: skb_holds_def)
  have len: "unat (skb_len s) = length fr" using assms(2) by (simp add: skb_holds_def)
  obtain ihl where 1: "pt_ip_hdr (skb_lin s) = Some ihl"
    using assms(1) by (cases "pt_ip_hdr (skb_lin s)") (auto simp: pktrace_fn_def)
  then obtain sp dp po where 2: "pt_l4 (skb_lin s) ihl = Some (sp, dp, po)"
    using assms(1) by (cases "pt_l4 (skb_lin s) ihl") (auto simp: pktrace_fn_def)
  with 1 obtain e0 where 3: "reserve env 0 = Some e0"
    using assms(1) by (cases "reserve env 0") (auto simp: pktrace_fn_def)
  with 1 2 obtain tmp where 4: "skb_load s 0 64 = Some tmp"
    using assms(1)
    by (cases "skb_load s 0 64") (auto simp: pktrace_fn_def PT_MAX_CAPTURE_BYTES_def Let_def)
  then have tmp: "tmp = take 64 fr" "64 \<le> length fr"
    using skb_access.load_SomeD [OF acc, of 0 64 tmp] by (simp_all add: slice_def)
  with len have "\<not> skb_len s < 64" by (simp add: word_less_nat_alt)
  then have "skb_len s = 64 \<or> 64 < skb_len s" by auto
  then show ?thesis
    using that [of e0 ihl sp dp po] 1 2 3 4 tmp assms(1)
    by (auto simp: pktrace_fn_def Let_def PT_MAX_CAPTURE_BYTES_def)
qed

lemma pt_no_event_short:
  assumes "skb_holds s fr" and "length fr < 64"
  shows "pktrace_fn env s = []"
proof (rule ccontr)
  assume "pktrace_fn env s \<noteq> []"
  then have "hd (pktrace_fn env s) \<in> set (pktrace_fn env s)" by (rule hd_in_set)
  then show False using pktrace_fn_eventE [OF _ assms(1)] assms(2) by (metis not_le)
qed

text \<open>C31: what \<open>pktrace\<close> captures: an event always carries exactly the first 64 bytes of the frame
  and its true length, and a frame shorter than 64 bytes, however well formed, is never reported:
  the fixed-size load fails and the record is discarded.\<close>

theorem pt_capture_is_prefix:
  assumes "skb_holds s fr"
  shows "(length fr < 64 \<longrightarrow> pktrace_fn env s = []) \<and>
    (\<forall>e \<in> set (pktrace_fn env s). pt_packet e = take 64 fr \<and> length (pt_packet e) = 64 \<and>
       unat (pt_cap_len e) = 64 \<and> unat (pt_packet_len e) = length fr)"
proof -
  have len: "unat (skb_len s) = length fr" using assms by (simp add: skb_holds_def)
  show ?thesis
    using pt_no_event_short [OF assms] len
    by (auto elim!: pktrace_fn_eventE [OF _ assms])
qed

definition pt_blank :: pt_event where
  "pt_blank =
     \<lparr>pt_packet_len = 0, pt_cap_len = 0, pt_src_ip = 0, pt_dst_ip = 0, pt_src_port = 0,
      pt_dst_port = 0, pt_l4_off = 0, pt_payload_off = 0, pt_payload_len = 0, pt_protocol = 0,
      pt_reserved = [0, 0, 0], pt_packet = replicate 64 0\<rparr>"

definition pt_env :: "pt_event probe_env" where
  "pt_env = \<lparr>ktime_ns = (\<lambda>_. 0), pid_tgid = 0, uid_gid = 0, cur_comm = [],
     reserve = (\<lambda>_. Some pt_blank), map_ok = (\<lambda>_. True)\<rparr>"

lemma pt_sample_reported: "pktrace_fn pt_env (frame_skb sample_udp_frame 50) \<noteq> []"
  by code_simp

lemma pt_capture_is_prefix_witness:
  "pktrace_fn pt_env (frame_skb (replicate 63 0) 63) = [] \<and>
   (\<exists>e. e \<in> set (pktrace_fn pt_env (frame_skb sample_udp_frame 50)) \<and>
      pt_packet e = take 64 sample_udp_frame \<and> unat (pt_packet_len e) = 72)"
  using pt_capture_is_prefix [OF frame_skb_holds, of "replicate 63 0" pt_env 63]
    pt_capture_is_prefix [OF frame_skb_holds, of sample_udp_frame pt_env 50]
    hd_in_set [OF pt_sample_reported]
  by (auto simp: length_sample_udp_frame)

section \<open>Header fields\<close>

lemma pt_ip_hdr_header:
  assumes "ip4_wf h"
  shows "\<exists>ihl. pt_ip_hdr (eth_ip_header h @ r) = Some ihl \<and> unat ihl = 20 + length (h_opts h) \<and>
    unat (14 + ihl) = length (eth_ip_header h)"
proof -
  have o: "length (h_opts h) \<le> 40" using assms by (simp add: ip4_wf_def)
  show ?thesis
    using eth_ip_fields [OF assms, of r] length_eth_ip_header [OF assms] o
    by (auto simp: pt_ip_hdr_def Let_def unat_word_ariths)
qed

lemma pt_l4_tcp:
  assumes "ip4_wf h" and "h_proto h = IPPROTO_TCP" and "tcp4_wf t"
    and "unat (14 + ihl) = length (eth_ip_header h)"
  shows "\<exists>po. pt_l4 (eth_ip_header h @ tcp_header t @ r) ihl =
      Some (be16 (t_sport0 t) (t_sport1 t), be16 (t_dport0 t) (t_dport1 t), po) \<and>
    unat po = length (eth_ip_header h @ tcp_header t)"
proof -
  have o: "length (h_opts h) \<le> 40" "length (t_opts t) \<le> 40"
    using assms by (simp_all add: ip4_wf_def tcp4_wf_def)
  show ?thesis
    using tcp_fields [OF assms(3) refl, of "eth_ip_header h" r] eth_ip_fields(5) [OF assms(1)]
      length_eth_ip_header [OF assms(1)] length_tcp_header [OF assms(3)] assms(2,4) o
    by (auto simp: pt_l4_def Let_def unat_word_ariths)
qed

lemma pt_l4_udp:
  assumes "ip4_wf h" and "h_proto h = IPPROTO_UDP" and "length lc = 4"
    and "unat (14 + ihl) = length (eth_ip_header h)"
  shows "\<exists>po. pt_l4 (eth_ip_header h @ udp_header s0 s1 d0 d1 lc @ r) ihl =
      Some (be16 s0 s1, be16 d0 d1, po) \<and>
    unat po = length (eth_ip_header h @ udp_header s0 s1 d0 d1 lc)"
proof -
  have o: "length (h_opts h) \<le> 40" using assms by (simp add: ip4_wf_def)
  have l: "length (udp_header s0 s1 d0 d1 lc) = 8" using assms(3) by (simp add: udp_header_def)
  have "22 + ihl = (14 + ihl) + 8" by simp
  then have w: "unat (22 + ihl) = unat (14 + ihl) + 8"
    using assms(4) length_eth_ip_header [OF assms(1)] o by (simp only: unat_word_ariths) simp
  show ?thesis
    using w udp_fields [OF refl, of "eth_ip_header h" s0 s1 d0 d1 lc r] eth_ip_fields(5) [OF assms(1)]
      length_eth_ip_header [OF assms(1)] assms(2,4) o l
    by (auto simp: pt_l4_def Let_def IPPROTO_UDP_def IPPROTO_TCP_def)
qed

lemma pt_l4_encoded:
  assumes "ip4_wf h" and "l4_encodes h l4 sp dp" and "unat (14 + ihl) = length (eth_ip_header h)"
  shows "\<exists>po. pt_l4 (eth_ip_header h @ l4 @ r) ihl = Some (sp, dp, po) \<and>
    unat po = length (eth_ip_header h @ l4)"
  using assms pt_l4_tcp [OF assms(1) _ _ assms(3)] pt_l4_udp [OF assms(1) _ _ assms(3)]
  unfolding l4_encodes_def by blast

text \<open>C22: \<open>pktrace\<close> reads the headers right: for every frame built from an Ethernet, an IPv4 (with
  any options) and a TCP or UDP header (with any options) whose headers lie in the linear part,
  the event carries the addresses, the ports and the protocol of the frame, and locates the payload
  behind the headers with its exact length.\<close>

theorem pt_parses_headers:
  assumes "ip4_wf h" and "l4_encodes h l4 sp dp"
    and "fr = eth_ip_header h @ l4 @ payload" and "64 \<le> length fr" and "length payload < 2 ^ 16"
    and "skb_holds s fr" and "length (eth_ip_header h @ l4) \<le> length (skb_lin s)"
    and "reserve env 0 = Some e0"
  shows "\<exists>e. pktrace_fn env s = [e] \<and> pt_protocol e = h_proto h \<and>
    pt_src_ip e = le32 (h_src h ! 0) (h_src h ! 1) (h_src h ! 2) (h_src h ! 3) \<and>
    pt_dst_ip e = le32 (h_dst h ! 0) (h_dst h ! 1) (h_dst h ! 2) (h_dst h ! 3) \<and>
    pt_src_port e = sp \<and> pt_dst_port e = dp \<and> unat (pt_l4_off e) = length (eth_ip_header h) \<and>
    unat (pt_payload_off e) = length (eth_ip_header h @ l4) \<and>
    unat (pt_payload_len e) = length payload"
proof -
  let ?n = "length (skb_lin s)"
  have "skb_lin s = take ?n ((eth_ip_header h @ l4) @ payload)"
    using assms(3,6) by (auto simp: skb_holds_def prefix_def simp del: take_append)
      (metis append_eq_conv_conj)
  with assms(7) obtain r where lin: "skb_lin s = eth_ip_header h @ l4 @ r"
    by (metis append_assoc take_append take_all)
  obtain ihl where 1: "pt_ip_hdr (skb_lin s) = Some ihl" "unat (14 + ihl) = length (eth_ip_header h)"
    using pt_ip_hdr_header [OF assms(1), of "l4 @ r"] lin by auto
  obtain po where 2: "pt_l4 (skb_lin s) ihl = Some (sp, dp, po)"
    "unat po = length (eth_ip_header h @ l4)"
    using pt_l4_encoded [OF assms(1,2) 1(2), of r] lin by auto
  have acc: "skb_access (skb_load s) fr"
    using assms(6) by unfold_locales (simp add: skb_holds_def)
  have "skb_load s 0 64 = Some (take 64 fr)"
    using skb_access.load_in [OF acc, of 0 64] assms(4) by (simp add: slice_def)
  then have "pktrace_fn env s \<noteq> []"
    using 1 2 assms(8) by (simp add: pktrace_fn_def PT_MAX_CAPTURE_BYTES_def Let_def)
  then have "hd (pktrace_fn env s) \<in> set (pktrace_fn env s)" by (rule hd_in_set)
  then obtain e where e: "pktrace_fn env s = [e]" "pt_src_ip e = ip_saddr (skb_lin s)"
    "pt_dst_ip e = ip_daddr (skb_lin s)" "pt_src_port e = sp" "pt_dst_port e = dp"
    "pt_l4_off e = 14 + ihl" "pt_payload_off e = po" "pt_protocol e = ip_protocol (skb_lin s)"
    "pt_payload_len e = payload_len_of (skb_len s) po"
    by (elim pktrace_fn_eventE [OF _ assms(6)]) (use 1 2 in auto)
  have "unat po + length payload = unat (skb_len s)"
    using 2 assms(3,6) by (simp add: skb_holds_def)
  then have "unat (payload_len_of (skb_len s) po) = length payload"
    using assms(5) by (rule payload_len_exact)
  then show ?thesis
    using e 1 2 lin eth_ip_fields [OF assms(1), of "l4 @ r"] by simp
qed

lemma pt_parses_headers_witness:
  "\<exists>e env. pktrace_fn env (frame_skb sample_udp_frame 50) = [e] \<and>
     unat (pt_payload_off e) = 42 \<and> pt_dst_port e = be16 0 53"
proof -
  let ?l4 = "udp_header 0xC0 0 0 53 [0, 0, 0, 0]" and ?h = "sample_ip4 IPPROTO_UDP"
  have len: "length (eth_ip_header ?h @ ?l4) = 42"
    using length_eth_ip_header [OF sample_ip4_wf, of IPPROTO_UDP]
    by (simp add: sample_ip4_def udp_header_def)
  have enc: "l4_encodes ?h ?l4 (be16 0xC0 0) (be16 0 53)"
    unfolding l4_encodes_def
    by (rule disjI2, rule exI [of _ "0xC0"], rule exI [of _ 0], rule exI [of _ 0], rule exI [of _ 53],
        rule exI [of _ "[0, 0, 0, 0]"]) (simp add: sample_ip4_def)
  have "\<exists>e. pktrace_fn pt_env (frame_skb sample_udp_frame 50) = [e] \<and> pt_protocol e = h_proto ?h \<and>
    pt_src_ip e = le32 (h_src ?h ! 0) (h_src ?h ! 1) (h_src ?h ! 2) (h_src ?h ! 3) \<and>
    pt_dst_ip e = le32 (h_dst ?h ! 0) (h_dst ?h ! 1) (h_dst ?h ! 2) (h_dst ?h ! 3) \<and>
    pt_src_port e = be16 0xC0 0 \<and> pt_dst_port e = be16 0 53 \<and>
    unat (pt_l4_off e) = length (eth_ip_header ?h) \<and>
    unat (pt_payload_off e) = length (eth_ip_header ?h @ ?l4) \<and>
    unat (pt_payload_len e) = length (replicate 30 (7 :: u8))"
  proof (rule pt_parses_headers [OF sample_ip4_wf enc])
    show "sample_udp_frame = eth_ip_header ?h @ ?l4 @ replicate 30 7"
      by (simp add: sample_udp_frame_def)
    show "64 \<le> length sample_udp_frame" by (simp add: length_sample_udp_frame)
    show "skb_holds (frame_skb sample_udp_frame 50) sample_udp_frame"
      by (rule frame_skb_holds) (simp add: length_sample_udp_frame)
    show "length (eth_ip_header ?h @ ?l4) \<le> length (skb_lin (frame_skb sample_udp_frame 50))"
      using len by (simp add: frame_skb_def length_sample_udp_frame)
  qed (simp_all add: pt_env_def)
  with len show ?thesis by metis
qed

section \<open>Reports\<close>

text \<open>A reader of the hexadecimal dump.\<close>

fun hex_digit :: "char \<Rightarrow> nat option" where
  "hex_digit c =
     (let n = of_char c :: nat
      in if 48 \<le> n \<and> n \<le> 57 then Some (n - 48)
         else if 97 \<le> n \<and> n \<le> 102 then Some (n - 87) else None)"

fun read_hex_bytes :: "string \<Rightarrow> u8 list option" where
  "read_hex_bytes [] = Some []"
| "read_hex_bytes [c] = None"
| "read_hex_bytes (c # d # s) =
     (if c = CHR '' '' then read_hex_bytes (d # s)
      else (case (hex_digit c, hex_digit d, read_hex_bytes s) of
              (Some h, Some l, Some bs) \<Rightarrow> Some (word_of_nat (16 * h + l) # bs)
            | _ \<Rightarrow> None))"

lemma hex_digit_char: "d < 16 \<Longrightarrow> hex_digit (hex_char d) = Some d"
  by (simp add: hex_char_def Let_def)

lemma hex_char_not_space: "d < 16 \<Longrightarrow> hex_char d \<noteq> CHR '' ''"
  using hex_digit_char [of d] by auto

lemma char_of_48: "char_of (48 :: nat) = CHR ''0''"
  by (simp add: char_of_def bit_0)

lemma hex_byte: "padz 2 (uhex (unat (b :: u8))) = [hex_char (unat b div 16), hex_char (unat b mod 16)]"
  using unat_u8_lt [of b]
  by (cases "unat b < 16") (auto simp: padz_def uhex.simps [of "unat b"] uhex.simps [of "unat b div 16"]
      hex_char_def char_of_48)

lemma read_hex_print: "read_hex_bytes (print_hex_bytes bs) = Some bs"
proof (induction bs rule: print_hex_bytes.induct)
  case 1
  then show ?case by simp
next
  case (2 b)
  show ?case
    using unat_u8_lt [of b]
    by (simp add: hex_byte hex_digit_char hex_char_not_space del: hex_digit.simps)
next
  case (3 b b' bs)
  then have "read_hex_bytes (CHR '' '' # print_hex_bytes (b' # bs)) = Some (b' # bs)"
    by (cases "print_hex_bytes (b' # bs)") auto
  then show ?case
    using unat_u8_lt [of b]
    by (simp add: hex_byte hex_digit_char hex_char_not_space del: hex_digit.simps)
qed

lemma payload_show_le: "payload_show cfg e \<le> payload_preview cfg"
  "payload_show cfg e \<le> payload_avail e"
  by (simp_all add: payload_show_def)

lemma payload_avail_bound:
  "pt_cap_len e = 64 \<Longrightarrow> payload_avail e = 64 - unat (pt_payload_off e)"
  by (auto simp: payload_avail_def word_less_nat_alt unat_sub word_le_nat_alt)

lemma pt_data_of_capture:
  assumes "pt_cap_len e = 64" and "pt_packet e = take 64 fr" and "64 \<le> length fr"
  shows "pt_data cfg e = Some (if payload_show cfg e = 0 then []
    else ''  data='' @ print_hex_bytes (slice (unat (pt_payload_off e)) (payload_show cfg e) fr))"
proof -
  have "unat (pt_payload_off e) + payload_show cfg e \<le> 64" if "payload_show cfg e \<noteq> 0"
    using payload_show_le(2) [of cfg e] payload_avail_bound [OF assms(1)] that by simp
  then show ?thesis
    using assms by (auto simp: pt_data_def Let_def slice_def min_def drop_take)
qed

text \<open>The two groups of calls print the same.\<close>

lemma pt_log_line_eq: "pt_log_line cfg e = pt_term_line cfg e"
  by (simp add: pt_log_line_def pt_term_line_def pt_head_def pt_data_def Let_def)

lemma pcap_record_of_capture:
  assumes "pt_cap_len e = 64" and "pt_packet e = take 64 fr" and "64 \<le> length fr"
  shows "\<exists>r. pcap_record sec usec (pt_cap_len e) (pt_packet_len e) (pt_packet e) = Some r"
  using assms by (simp add: pcap_record_def)

text \<open>C32: an event of the program is reported without a read behind the captured bytes, whatever
  the options: the log gets the line the terminal gets, and the hexadecimal preview decodes to the
  captured payload bytes, cut to the requested number.\<close>

theorem pt_report_faithful:
  assumes "skb_holds s fr" and "e \<in> set (pktrace_fn env s)"
  shows "\<exists>out data. pt_handle_event cfg sec usec e = Some out \<and>
    out_term out = pt_head e @ data @ [newline] \<and>
    out_log out = (if cfg_log cfg then out_term out else []) \<and>
    (let n = min (payload_preview cfg) (64 - unat (pt_payload_off e))
     in if n = 0 then data = []
        else \<exists>hex. data = ''  data='' @ hex \<and>
               read_hex_bytes hex = Some (slice (unat (pt_payload_off e)) n fr))"
proof -
  obtain c: "pt_cap_len e = 64" "pt_packet e = take 64 fr" "64 \<le> length fr"
    using pktrace_fn_eventE [OF assms(2,1)] by metis
  obtain r where r: "pcap_record sec usec (pt_cap_len e) (pt_packet_len e) (pt_packet e) = Some r"
    using pcap_record_of_capture [OF c] by blast
  have "payload_show cfg e = min (payload_preview cfg) (64 - unat (pt_payload_off e))"
    by (simp add: payload_show_def payload_avail_bound [OF c(1)] min_def)
  then show ?thesis
    using r by (auto simp: pt_handle_event_def pt_log_line_eq pt_term_line_def pt_data_of_capture [OF c]
        Let_def read_hex_print)
qed

lemma pt_report_faithful_witness:
  "\<exists>e. e \<in> set (pktrace_fn pt_env (frame_skb sample_udp_frame 50)) \<and>
     (\<exists>out. pt_handle_event \<lparr>cfg_log = True, cfg_pcap = True, payload_preview = 16\<rparr> 1 2 e = Some out \<and>
       out_log out = out_term out)"
  using pt_report_faithful [OF frame_skb_holds hd_in_set [OF pt_sample_reported],
      of "\<lparr>cfg_log = True, cfg_pcap = True, payload_preview = 16\<rparr>" 1 2]
    hd_in_set [OF pt_sample_reported]
  by (fastforce simp: length_sample_udp_frame)

text \<open>The capture file of a session: the records its events append, \<open>None\<close> if one of them reads
  out of bounds.\<close>

fun pt_session :: "output_cfg \<Rightarrow> (nat \<times> nat \<times> pt_event) list \<Rightarrow> u8 list option" where
  "pt_session cfg [] = Some []"
| "pt_session cfg ((sec, usec, e) # xs) =
     (case pt_handle_event cfg sec usec e of
        None \<Rightarrow> None
      | Some out \<Rightarrow> map_option (\<lambda>bs. out_pcap out @ bs) (pt_session cfg xs))"

definition captured_from :: "nat \<times> nat \<times> pt_event \<Rightarrow> u8 list \<Rightarrow> bool" where
  "captured_from x fr \<longleftrightarrow> (\<exists>env s. skb_holds s fr \<and> snd (snd x) \<in> set (pktrace_fn env s))"

lemma pt_session_records:
  assumes "cfg_pcap cfg" and "list_all2 captured_from xs frs"
  shows "\<exists>rs. pt_session cfg xs = Some (concat rs) \<and>
    list_all2 (\<lambda>r (s, u, c, l, p). pcap_record s u c l p = Some r) rs
      (map2 (\<lambda>(sec, usec, e) fr. (sec, usec, 64, word_of_nat (length fr), take 64 fr)) xs frs)"
  using assms(2)
proof (induction xs frs rule: list_all2_induct)
  case Nil
  show ?case by (rule exI [of _ "[]"]) simp
next
  case (Cons x xs fr frs)
  obtain sec usec e where x: "x = (sec, usec, e)" by (cases x)
  obtain env s where s: "skb_holds s fr" "e \<in> set (pktrace_fn env s)"
    using Cons.hyps x by (auto simp: captured_from_def)
  obtain c: "pt_cap_len e = 64" "pt_packet e = take 64 fr" "64 \<le> length fr"
    and l: "pt_packet_len e = skb_len s"
    using pktrace_fn_eventE [OF s(2,1)] by metis
  have l': "pt_packet_len e = word_of_nat (length fr)"
    using s(1) l by (metis skb_holds_def word_nat_cast_eq)
  obtain r where r: "pcap_record sec usec (pt_cap_len e) (pt_packet_len e) (pt_packet e) = Some r"
    using pcap_record_of_capture [OF c] by blast
  then obtain out where out: "pt_handle_event cfg sec usec e = Some out" "out_pcap out = r"
    using assms(1) by (cases "cfg_log cfg")
      (auto simp: pt_handle_event_def pt_log_line_eq pt_term_line_def pt_data_of_capture [OF c] Let_def)
  obtain rs where rs: "pt_session cfg xs = Some (concat rs)"
    "list_all2 (\<lambda>r (s, u, c, l, p). pcap_record s u c l p = Some r) rs
      (map2 (\<lambda>(sec, usec, e) fr. (sec, usec, 64, word_of_nat (length fr), take 64 fr)) xs frs)"
    using Cons.IH by blast
  show ?case
    by (rule exI [of _ "r # rs"]) (use rs out r x l' c in simp)
qed

text \<open>C11: the capture file of a session is a well-formed pcap file: a reader gets back, in order,
  the time, the true length and the first 64 bytes of every reported frame.\<close>

theorem pt_pcap_readable:
  assumes "cfg_pcap cfg" and "list_all2 captured_from xs frs" and "\<forall>fr \<in> set frs. length fr < 2 ^ 32"
  shows "\<exists>bs. pt_session cfg xs = Some bs \<and>
    read_pcap (pcap_global_header PT_MAX_CAPTURE_BYTES @ bs) =
      Some (64, map2 (\<lambda>(sec, usec, e) fr. \<lparr>ts_sec = sec mod 2 ^ 32, ts_usec = usec mod 2 ^ 32,
        orig_len = length fr, frame_bytes = take 64 fr\<rparr>) xs frs)"
proof -
  obtain rs where rs: "pt_session cfg xs = Some (concat rs)"
    "list_all2 (\<lambda>r (s, u, c, l, p). pcap_record s u c l p = Some r) rs
      (map2 (\<lambda>(sec, usec, e) fr. (sec, usec, 64, word_of_nat (length fr), take 64 fr)) xs frs)"
    using pt_session_records [OF assms(1,2)] by blast
  have "unat (word_of_nat (length fr) :: u32) = length fr" if "fr \<in> set frs" for fr :: "u8 list"
    using assms(3) that by (simp add: unat_of_nat take_bit_nat_eq_self)
  then show ?thesis
    using rs(1) read_pcap_written [OF _ rs(2), of PT_MAX_CAPTURE_BYTES]
    by (auto simp: PT_MAX_CAPTURE_BYTES_def intro!: map_cong dest: set_zip_rightD)
qed

lemma pt_pcap_readable_witness:
  "\<exists>e bs. pt_session \<lparr>cfg_log = False, cfg_pcap = True, payload_preview = 64\<rparr> [(7, 9, e)] = Some bs \<and>
     read_pcap (pcap_global_header PT_MAX_CAPTURE_BYTES @ bs) =
       Some (64, [\<lparr>ts_sec = 7, ts_usec = 9, orig_len = 72, frame_bytes = take 64 sample_udp_frame\<rparr>])"
proof -
  have "pktrace_fn pt_env (frame_skb sample_udp_frame 50) \<noteq> []" by code_simp
  then obtain e where "e \<in> set (pktrace_fn pt_env (frame_skb sample_udp_frame 50))"
    by (cases "pktrace_fn pt_env (frame_skb sample_udp_frame 50)") auto
  moreover have "skb_holds (frame_skb sample_udp_frame 50) sample_udp_frame"
    by (rule frame_skb_holds) (simp add: length_sample_udp_frame)
  ultimately have "list_all2 captured_from [(7, 9, e)] [sample_udp_frame]"
    by (auto simp: captured_from_def)
  from pt_pcap_readable [OF _ this, of "\<lparr>cfg_log = False, cfg_pcap = True, payload_preview = 64\<rparr>"]
  show ?thesis by (auto simp: length_sample_udp_frame)
qed

end
