(* ===== verification/Pksniff_Bpf.thy ===== *)
theory Pksniff_Bpf
  imports Pktrace
begin

text \<open>
  The TC programs of \<open>pksniff\<close> (\<open>pksniff/Pksniff.bpf.c\<close>, \<open>pksniff/Pksniff.h\<close>): the
  header parser, the application hints (DNS names, HTTP lines, TLS server names), the per-CPU
  scratch record that survives from packet to packet, and the capture in 16-byte chunks. Stores
  into the string arrays are checked: \<open>None\<close> is a store outside an array.
\<close>

section \<open>Events\<close>

definition PK_MAX_CAPTURE_BYTES :: nat where "PK_MAX_CAPTURE_BYTES = 256"
definition MAX_DNS_NAME :: u32 where "MAX_DNS_NAME = 64"
definition MAX_HTTP_INFO :: u32 where "MAX_HTTP_INFO = 48"
definition MAX_TLS_SNI :: u32 where "MAX_TLS_SNI = 64"

lemmas pk_sizes = PK_MAX_CAPTURE_BYTES_def MAX_DNS_NAME_def MAX_HTTP_INFO_def MAX_TLS_SNI_def

definition DIR_INGRESS :: u8 where "DIR_INGRESS = 0"
definition DIR_EGRESS :: u8 where "DIR_EGRESS = 1"

definition APP_NONE :: u8 where "APP_NONE = 0"
definition APP_DNS :: u8 where "APP_DNS = 1"
definition APP_HTTP :: u8 where "APP_HTTP = 2"
definition APP_TLS :: u8 where "APP_TLS = 3"
definition APP_ICMP :: u8 where "APP_ICMP = 4"

lemmas app_tags = APP_NONE_def APP_DNS_def APP_HTTP_def APP_TLS_def APP_ICMP_def

record pk_event =
  pk_ktime_ns :: u64
  pk_src_ip :: u32
  pk_dst_ip :: u32
  pk_ip_tot_len :: u16
  pk_ttl :: u8
  pk_ip_proto :: u8
  pk_ip_flags :: u8
  pk_src_port :: u16
  pk_dst_port :: u16
  pk_tcp_flags :: u8
  pk_l4_off :: u16
  pk_payload_off :: u16
  pk_payload_len :: u16
  pk_packet_len :: u32
  pk_cap_len :: u32
  pk_direction :: u8
  pk_app_tag :: u8
  pk_reserved :: "u8 list"
  pk_dns_name :: "char list"
  pk_http_info :: "char list"
  pk_tls_sni :: "char list"
  pk_packet :: "u8 list"

text \<open>The array sizes of the C type.\<close>

definition pk_wf :: "pk_event \<Rightarrow> bool" where
  "pk_wf e \<longleftrightarrow> length (pk_reserved e) = 2 \<and> length (pk_dns_name e) = 64 \<and>
     length (pk_http_info e) = 48 \<and> length (pk_tls_sni e) = 64 \<and> length (pk_packet e) = 256"

section \<open>Application hints\<close>

subsection \<open>DNS\<close>

text \<open>One conditional copy of a label byte: byte \<open>k\<close> at \<open>pos + k\<close>. The first byte is copied
  without a look at the space that is left.\<close>

definition dns_char ::
  "(u32 \<Rightarrow> nat \<Rightarrow> u8 list option) \<Rightarrow> u32 \<Rightarrow> u32 \<Rightarrow> u8 \<Rightarrow> nat \<Rightarrow> u32 \<times> char list \<Rightarrow>
   (u32 \<times> char list) option" where
  "dns_char load out_max pos len k st =
     (let (out_pos, out) = st
      in if k < unat len \<and> (k = 0 \<or> out_pos < out_max - 1)
         then (case load (pos + word_of_nat k) 1 of
                 Some (ch # _) \<Rightarrow>
                   map_option (\<lambda>out. (out_pos + 1, out)) (arr_set out (unat out_pos) (chr_of ch))
               | _ \<Rightarrow> Some st)
         else Some st)"

definition dns_dot :: "u32 \<Rightarrow> nat \<Rightarrow> u32 \<times> char list \<Rightarrow> (u32 \<times> char list) option" where
  "dns_dot out_max label st =
     (let (out_pos, out) = st
      in if 0 < label \<and> out_pos < out_max - 1
         then map_option (\<lambda>out. (out_pos + 1, out)) (arr_set out (unat out_pos) CHR ''.'')
         else Some st)"

text \<open>The loop over at most \<open>n\<close> further labels; the result is the position and the array behind
  it.\<close>

fun dns_labels ::
  "(u32 \<Rightarrow> nat \<Rightarrow> u8 list option) \<Rightarrow> u32 \<Rightarrow> u32 \<Rightarrow> nat \<Rightarrow> nat \<Rightarrow> u32 \<Rightarrow> u32 \<times> char list \<Rightarrow>
   (u32 \<times> char list) option" where
  "dns_labels load pkt_end out_max label 0 pos st = Some st"
| "dns_labels load pkt_end out_max label (Suc n) pos st =
     (if pkt_end < pos + 1 \<or> out_max - 1 \<le> fst st then Some st
      else (case load pos 1 of
              Some (len # _) \<Rightarrow>
                (if len = 0 then Some st
                 else if len AND 0xC0 = 0xC0 then Some st
                 else (let pos = pos + 1
                       in Option.bind (dns_dot out_max label st) (\<lambda>st.
                          if pkt_end < pos + ucast len then Some st
                          else Option.bind (dns_char load out_max pos len 0 st) (\<lambda>st.
                               Option.bind (dns_char load out_max pos len 1 st) (\<lambda>st.
                               Option.bind (dns_char load out_max pos len 2 st) (\<lambda>st.
                               Option.bind (dns_char load out_max pos len 3 st) (\<lambda>st.
                                 dns_labels load pkt_end out_max (label + 1) n
                                   (pos + ucast len) st)))))))
            | _ \<Rightarrow> Some st))"

definition parse_dns_name ::
  "(u32 \<Rightarrow> nat \<Rightarrow> u8 list option) \<Rightarrow> u32 \<Rightarrow> u32 \<Rightarrow> char list \<Rightarrow> u32 \<Rightarrow> char list option" where
  "parse_dns_name load off pkt_end out out_max =
     Option.bind (dns_labels load pkt_end out_max 0 8 (off + 12) (0, out)) (\<lambda>(out_pos, out).
       if out_pos < out_max then arr_set out (unat out_pos) NUL else Some out)"

subsection \<open>HTTP\<close>

definition is_http :: "(u32 \<Rightarrow> nat \<Rightarrow> u8 list option) \<Rightarrow> u32 \<Rightarrow> u32 \<Rightarrow> bool" where
  "is_http load payload_off pkt_end =
     (if pkt_end < payload_off + 8 then False
      else (case load payload_off 8 of
              None \<Rightarrow> False
            | Some hdr \<Rightarrow>
                (let h = map chr_of hdr
                 in has_prefix ''GET '' h \<or> has_prefix ''POST'' h \<or> has_prefix ''HEAD'' h \<or>
                    has_prefix ''PUT '' h \<or> has_prefix ''DEL'' h \<or> has_prefix ''HTTP'' h)))"

text \<open>A loop of stores \<open>out[i++] = x\<close>.\<close>

fun store_all :: "nat \<Rightarrow> 'a list \<Rightarrow> 'a list \<Rightarrow> 'a list option" where
  "store_all i [] out = Some out"
| "store_all i (x # xs) out = Option.bind (arr_set out i x) (store_all (Suc i) xs)"

definition http_char :: "u8 \<Rightarrow> char" where
  "http_char b = (let c = chr_of b in if c = CHR 0x0D \<or> c = CHR 0x0A then CHR '' '' else c)"

definition parse_http_info ::
  "(u32 \<Rightarrow> nat \<Rightarrow> u8 list option) \<Rightarrow> u32 \<Rightarrow> u32 \<Rightarrow> char list \<Rightarrow> u32 \<Rightarrow> char list option" where
  "parse_http_info load payload_off pkt_end out out_max =
     (let copy = (if pkt_end < payload_off + (out_max - 1) then pkt_end - payload_off
                  else out_max - 1)
      in if copy = 0 \<or> out_max - 1 < copy then Some out
         else (case load payload_off (unat MAX_HTTP_INFO - 1) of
                 None \<Rightarrow> Some out
               | Some tmp \<Rightarrow>
                   Option.bind (store_all 0 (map http_char tmp) out)
                     (\<lambda>out. arr_set out (unat MAX_HTTP_INFO - 1) NUL)))"

subsection \<open>TLS\<close>

text \<open>From the start of the record to the extensions: the position of the first extension and the
  end of the block, or \<open>None\<close> where the function returns.\<close>

definition tls_extensions ::
  "(u32 \<Rightarrow> nat \<Rightarrow> u8 list option) \<Rightarrow> u32 \<Rightarrow> u32 \<Rightarrow> (u32 \<times> u32) option" where
  "tls_extensions load payload_off pkt_end =
     (if pkt_end < payload_off + 5 then None else
      Option.bind (load payload_off 6) (\<lambda>rec.
      if rec ! 0 \<noteq> 0x16 \<or> rec ! 5 \<noteq> 0x01 then None else
      (let pos = payload_off + 5 + 4 + 2 + 32 in
      if pkt_end < pos + 1 then None else
      Option.bind (load pos 1) (\<lambda>sid.
      let pos = pos + (1 + ucast (sid ! 0)) in
      if pkt_end < pos + 2 then None else
      Option.bind (load pos 2) (\<lambda>cs.
      let pos = pos + (2 + ucast (be16 (cs ! 0) (cs ! 1))) in
      if pkt_end < pos + 1 then None else
      Option.bind (load pos 1) (\<lambda>cm.
      let pos = pos + (1 + ucast (cm ! 0)) in
      if pkt_end < pos + 2 then None else
      Option.bind (load pos 2) (\<lambda>et.
      let pos = pos + 2;
          ext_end = pos + ucast (be16 (et ! 0) (et ! 1))
      in Some (pos, if pkt_end < ext_end then pkt_end else ext_end))))))))"

text \<open>The copy of at most \<open>n\<close> further bytes of the host name.\<close>

fun sni_copy ::
  "(u32 \<Rightarrow> nat \<Rightarrow> u8 list option) \<Rightarrow> u32 \<Rightarrow> u16 \<Rightarrow> nat \<Rightarrow> nat \<Rightarrow> char list \<Rightarrow> char list option" where
  "sni_copy load base name_len c 0 out = Some out"
| "sni_copy load base name_len c (Suc n) out =
     (if name_len \<le> word_of_nat c then Some out
      else (case load (base + word_of_nat c) 1 of
              Some (ch # _) \<Rightarrow>
                Option.bind (arr_set out c (chr_of ch)) (sni_copy load base name_len (Suc c) n)
            | _ \<Rightarrow> Some out))"

text \<open>The branch for the server name extension whose data start at \<open>pos\<close>.\<close>

definition sni_extension ::
  "(u32 \<Rightarrow> nat \<Rightarrow> u8 list option) \<Rightarrow> u32 \<Rightarrow> u32 \<Rightarrow> char list \<Rightarrow> u32 \<Rightarrow> char list option" where
  "sni_extension load pos ext_end out out_max =
     (if ext_end < pos + 5 then Some out
      else (case load pos 5 of
              None \<Rightarrow> Some out
            | Some h \<Rightarrow>
                (let n0 = be16 (h ! 3) (h ! 4)
                 in if n0 = 0 then Some out
                    else (let name_len = (if out_max \<le> ucast n0 then ucast (out_max - 1) else n0)
                          in if ext_end < pos + 5 + ucast name_len then Some out
                             else Option.bind (sni_copy load (pos + 5) name_len 0 16 out)
                                    (\<lambda>out. arr_set out (16 - 1) NUL)))))"

fun tls_walk ::
  "(u32 \<Rightarrow> nat \<Rightarrow> u8 list option) \<Rightarrow> u32 \<Rightarrow> char list \<Rightarrow> u32 \<Rightarrow> nat \<Rightarrow> u32 \<Rightarrow> char list option" where
  "tls_walk load ext_end out out_max 0 pos = Some out"
| "tls_walk load ext_end out out_max (Suc n) pos =
     (if ext_end < pos + 4 then Some out
      else (case load pos 4 of
              None \<Rightarrow> Some out
            | Some t \<Rightarrow>
                (let ext_type = be16 (t ! 0) (t ! 1);
                     ext_len = be16 (t ! 2) (t ! 3);
                     pos = pos + 4
                 in if ext_type = 0 then sni_extension load pos ext_end out out_max
                    else tls_walk load ext_end out out_max n (pos + ucast ext_len))))"

definition parse_tls_sni ::
  "(u32 \<Rightarrow> nat \<Rightarrow> u8 list option) \<Rightarrow> u32 \<Rightarrow> u32 \<Rightarrow> char list \<Rightarrow> u32 \<Rightarrow> char list option" where
  "parse_tls_sni load payload_off pkt_end out out_max =
     (case tls_extensions load payload_off pkt_end of
        None \<Rightarrow> Some out
      | Some (pos, ext_end) \<Rightarrow> tls_walk load ext_end out out_max 16 pos)"

section \<open>The packet path\<close>

text \<open>The TCP flags, packed bit by bit.\<close>

definition pack_flags :: "u8 \<Rightarrow> u8" where
  "pack_flags b =
     (let raw = 0;
          raw = (if bit b 0 then raw OR 0x01 else raw);
          raw = (if bit b 1 then raw OR 0x02 else raw);
          raw = (if bit b 2 then raw OR 0x04 else raw);
          raw = (if bit b 3 then raw OR 0x08 else raw);
          raw = (if bit b 4 then raw OR 0x10 else raw);
          raw = (if bit b 5 then raw OR 0x20 else raw)
      in raw)"

definition pk_ip_hdr :: "u8 list \<Rightarrow> u16 option" where
  "pk_ip_hdr d =
     (if length d < ETH_HLEN + IPHDR_LEN then None
      else (let ip_hdr_len = ucast (ip_ihl d) * 4
            in if unat ip_hdr_len < IPHDR_LEN then None
               else if length d < ETH_HLEN + unat ip_hdr_len then None
               else Some ip_hdr_len))"

text \<open>Ports, payload offset and TCP flags.\<close>

definition pk_l4 :: "u8 list \<Rightarrow> u16 \<Rightarrow> (u16 \<times> u16 \<times> u16 \<times> u8) option" where
  "pk_l4 d ip_hdr_len =
     (let l4_off = 14 + ip_hdr_len; p = unat l4_off
      in if ip_protocol d = IPPROTO_TCP
         then (if length d < p + TCPHDR_LEN then None
               else (let h0 = ucast (tcp_doff d p) * 4;
                         tcp_hdr_len = (if unat h0 < TCPHDR_LEN then 20 else h0)
                     in if length d < p + unat tcp_hdr_len then None
                        else Some (l4_source d p, l4_dest d p, l4_off + tcp_hdr_len,
                                   pack_flags (tcp_flag_byte d p))))
         else if ip_protocol d = IPPROTO_UDP
         then (if length d < p + UDPHDR_LEN then None
               else Some (l4_source d p, l4_dest d p, l4_off + 8, 0))
         else Some (0, 0, l4_off, 0))"

definition pk_clear :: "pk_event probe_env \<Rightarrow> u8 \<Rightarrow> pk_event \<Rightarrow> pk_event" where
  "pk_clear env direction e = e\<lparr>
     pk_dns_name := (pk_dns_name e)[0 := NUL],
     pk_http_info := (pk_http_info e)[0 := NUL],
     pk_tls_sni := (pk_tls_sni e)[0 := NUL],
     pk_tcp_flags := 0, pk_app_tag := APP_NONE, pk_direction := direction,
     pk_ktime_ns := ktime_ns env 0\<rparr>"

definition capped_len :: "u32 \<Rightarrow> u32" where
  "capped_len len = (if len < word_of_nat PK_MAX_CAPTURE_BYTES then len
                     else word_of_nat PK_MAX_CAPTURE_BYTES)"

definition pk_arp_fields :: "skb \<Rightarrow> pk_event \<Rightarrow> pk_event" where
  "pk_arp_fields s e = e\<lparr>
     pk_ip_proto := 0, pk_src_ip := 0, pk_dst_ip := 0, pk_src_port := 0, pk_dst_port := 0,
     pk_ttl := 0, pk_ip_flags := 0, pk_ip_tot_len := 0, pk_l4_off := 14, pk_payload_off := 14,
     pk_payload_len := 0, pk_packet_len := skb_len s, pk_cap_len := capped_len (skb_len s)\<rparr>"

definition pk_ip_fields ::
  "skb \<Rightarrow> u16 \<Rightarrow> u16 \<Rightarrow> u16 \<Rightarrow> u16 \<Rightarrow> u8 \<Rightarrow> pk_event \<Rightarrow> pk_event" where
  "pk_ip_fields s ip_hdr_len src_port dst_port payload_off tcp_flags e =
     (let d = skb_lin s in e\<lparr>
       pk_src_ip := ip_saddr d, pk_dst_ip := ip_daddr d, pk_ttl := ip_ttl d,
       pk_ip_proto := ip_protocol d, pk_ip_tot_len := ip_tot_len d,
       pk_ip_flags := ucast (drop_bit 12 (ip_frag_off d) AND 0x07),
       pk_src_port := src_port, pk_dst_port := dst_port, pk_tcp_flags := tcp_flags,
       pk_l4_off := 14 + ip_hdr_len, pk_payload_off := payload_off, pk_packet_len := skb_len s,
       pk_cap_len := capped_len (skb_len s),
       pk_payload_len := payload_len_of (skb_len s) payload_off\<rparr>)"

definition http_hint :: "skb \<Rightarrow> u16 \<Rightarrow> pk_event \<Rightarrow> pk_event option" where
  "http_hint s payload_off e =
     (if is_http (skb_load s) (ucast payload_off) (skb_len s)
      then map_option (\<lambda>out. e\<lparr>pk_app_tag := APP_HTTP, pk_http_info := out\<rparr>)
             (parse_http_info (skb_load s) (ucast payload_off) (skb_len s) (pk_http_info e)
                MAX_HTTP_INFO)
      else Some e)"

definition pk_hints ::
  "skb \<Rightarrow> u8 \<Rightarrow> u8 \<Rightarrow> u16 \<Rightarrow> u16 \<Rightarrow> u16 \<Rightarrow> pk_event \<Rightarrow> pk_event option" where
  "pk_hints s direction protocol src_port dst_port payload_off e =
     (if protocol = IPPROTO_ICMP then Some (e\<lparr>pk_app_tag := APP_ICMP\<rparr>)
      else if protocol = IPPROTO_UDP then
        (if src_port = 53 \<or> dst_port = 53
         then map_option (\<lambda>out. e\<lparr>pk_app_tag := APP_DNS, pk_dns_name := out\<rparr>)
                (parse_dns_name (skb_load s) (ucast payload_off) (skb_len s) (pk_dns_name e)
                   MAX_DNS_NAME)
         else Some e)
      else if protocol = IPPROTO_TCP then
        (if src_port = 443 \<or> dst_port = 443 then
           (let e = e\<lparr>pk_app_tag := APP_TLS\<rparr>
            in if direction = DIR_EGRESS \<or> dst_port = 443
               then map_option (\<lambda>out. e\<lparr>pk_tls_sni := out\<rparr>)
                      (parse_tls_sni (skb_load s) (ucast payload_off) (skb_len s) (pk_tls_sni e)
                         MAX_TLS_SNI)
               else Some e)
         else if src_port = 80 \<or> dst_port = 80 \<or> src_port = 8080 \<or> dst_port = 8080
         then http_hint s payload_off e
         else http_hint s payload_off e)
      else Some e)"

text \<open>The chunk loop from \<open>off\<close> for at most \<open>n\<close> chunks. As everywhere, \<open>None\<close> is a store outside
  the array; \<open>Some None\<close> discards the record.\<close>

fun capture_chunks ::
  "(u32 \<Rightarrow> nat \<Rightarrow> u8 list option) \<Rightarrow> u32 \<Rightarrow> nat \<Rightarrow> nat \<Rightarrow> u8 list \<Rightarrow> u8 list option option" where
  "capture_chunks load cap_len 0 off packet = Some (Some packet)"
| "capture_chunks load cap_len (Suc n) off packet =
     (if cap_len \<le> word_of_nat off then Some (Some packet)
      else (case load (word_of_nat off) 16 of
              None \<Rightarrow> Some None
            | Some tmp \<Rightarrow>
                Option.bind (arr_copy packet off tmp) (capture_chunks load cap_len n (off + 16))))"

definition capture_bytes :: "pk_event probe_env \<Rightarrow> skb \<Rightarrow> pk_event \<Rightarrow> pk_event list option" where
  "capture_bytes env s e =
     (case reserve env 0 of
        None \<Rightarrow> Some []
      | Some re \<Rightarrow>
          (let cap = (if word_of_nat PK_MAX_CAPTURE_BYTES < skb_len s
                      then word_of_nat PK_MAX_CAPTURE_BYTES else skb_len s);
               cap = cap AND NOT 0xF
           in map_option
                (\<lambda>r. case r of
                       None \<Rightarrow> []
                     | Some bytes \<Rightarrow> [e\<lparr>pk_reserved := [0, 0], pk_cap_len := cap, pk_packet := bytes\<rparr>])
                (capture_chunks (skb_load s) cap 16 0 (pk_packet re))))"

type_synonym pk_state = "u32 \<rightharpoonup> pk_event"

definition process_packet ::
  "pk_event probe_env \<Rightarrow> skb \<Rightarrow> u8 \<Rightarrow> pk_state \<Rightarrow> (pk_state \<times> pk_event list) option" where
  "process_packet env s direction m =
     (let d = skb_lin s in
      if length d < ETH_HLEN then Some (m, [])
      else (case m 0 of
              None \<Rightarrow> Some (m, [])
            | Some e0 \<Rightarrow>
                (let e = pk_clear env direction e0 in
                 if eth_proto d = ETH_P_ARP then
                   (let e = pk_arp_fields s e in map_option (Pair (m(0 \<mapsto> e))) (capture_bytes env s e))
                 else if eth_proto d \<noteq> ETH_P_IP then Some (m(0 \<mapsto> e), [])
                 else
                   (case pk_ip_hdr d of
                      None \<Rightarrow> Some (m(0 \<mapsto> e), [])
                    | Some ip_hdr_len \<Rightarrow>
                        (case pk_l4 d ip_hdr_len of
                           None \<Rightarrow> Some (m(0 \<mapsto> e), [])
                         | Some (src_port, dst_port, payload_off, tcp_flags) \<Rightarrow>
                             (case pk_hints s direction (ip_protocol d) src_port dst_port payload_off
                                 (pk_ip_fields s ip_hdr_len src_port dst_port payload_off
                                    tcp_flags e) of
                                None \<Rightarrow> None
                              | Some e \<Rightarrow> map_option (Pair (m(0 \<mapsto> e))) (capture_bytes env s e)))))))"

definition pksniff_ingress ::
  "pk_event probe_env \<Rightarrow> skb \<Rightarrow> pk_state \<Rightarrow> (pk_state \<times> pk_event list) option" where
  "pksniff_ingress env s m = process_packet env s DIR_INGRESS m"

definition pksniff_egress ::
  "pk_event probe_env \<Rightarrow> skb \<Rightarrow> pk_state \<Rightarrow> (pk_state \<times> pk_event list) option" where
  "pksniff_egress env s m = process_packet env s DIR_EGRESS m"

section \<open>The DNS hint\<close>

lemma arr_set_append [simp]: "arr_set (xs @ x # ys) (length xs) v = Some (xs @ v # ys)"
  by (simp add: arr_set_def)

lemma unat_out_pos_Suc: "unat (p :: u32) < 64 \<Longrightarrow> unat (p + 1) = unat p + 1"
  by (simp add: unat_word_ariths)

lemma less_63: "(p :: u32) < MAX_DNS_NAME - 1 \<longleftrightarrow> unat p < 63"
  by (simp add: word_less_nat_alt MAX_DNS_NAME_def)

lemma dns_char_safe:
  assumes "unat (fst st) < 63" and "length (snd st) = 64"
  shows "\<exists>st'. dns_char load MAX_DNS_NAME pos len k st = Some st' \<and> length (snd st') = 64 \<and>
    unat (fst st') \<le> unat (fst st) + 1"
  using assms
  by (cases st) (auto simp: dns_char_def Let_def unat_out_pos_Suc split: option.split list.split)

lemma dns_dot_safe:
  assumes "unat (fst st) < 63" and "length (snd st) = 64"
  shows "\<exists>st'. dns_dot MAX_DNS_NAME label st = Some st' \<and> length (snd st') = 64 \<and>
    unat (fst st') \<le> unat (fst st) + 1"
  using assms by (cases st) (auto simp: dns_dot_def unat_out_pos_Suc)

definition dns_ok :: "(u32 \<times> char list) option \<Rightarrow> bool" where
  "dns_ok r \<longleftrightarrow> (\<exists>p a. r = Some (p, a) \<and> length a = 64 \<and> unat p \<le> 40)"

lemma dns_labels_safe:
  assumes "unat (fst st) \<le> 5 * label" and "label + n \<le> 8" and "length (snd st) = 64"
  shows "dns_ok (dns_labels load pkt_end MAX_DNS_NAME label n pos st)"
  using assms
proof (induction n arbitrary: label pos st)
  case 0
  then show ?case by (cases st) (simp add: dns_ok_def)
next
  case (Suc n)
  have st: "dns_ok (Some st)" using Suc.prems by (cases st) (simp add: dns_ok_def)
  show ?case
  proof (cases "load pos 1")
    case None
    then show ?thesis using st by simp
  next
    case (Some bs)
    show ?thesis
    proof (cases bs)
      case Nil
      then show ?thesis using st Some by simp
    next
      case (Cons len bs')
      let ?c = "\<lambda>k. dns_char load MAX_DNS_NAME (pos + 1) len k"
      obtain s0 where s0: "dns_dot MAX_DNS_NAME label st = Some s0" "length (snd s0) = 64"
        "unat (fst s0) \<le> 5 * label + 1"
        using dns_dot_safe [of st label] Suc.prems by auto
      obtain s1 where s1: "?c 0 s0 = Some s1" "length (snd s1) = 64" "unat (fst s1) \<le> 5 * label + 2"
        using dns_char_safe [of s0 load "pos + 1" len 0] s0 Suc.prems(2) by auto
      obtain s2 where s2: "?c 1 s1 = Some s2" "length (snd s2) = 64" "unat (fst s2) \<le> 5 * label + 3"
        using dns_char_safe [of s1 load "pos + 1" len 1] s1 Suc.prems(2) by auto
      obtain s3 where s3: "?c 2 s2 = Some s3" "length (snd s3) = 64" "unat (fst s3) \<le> 5 * label + 4"
        using dns_char_safe [of s2 load "pos + 1" len 2] s2 Suc.prems(2) by auto
      obtain s4 where s4: "?c 3 s3 = Some s4" "length (snd s4) = 64"
        "unat (fst s4) \<le> 5 * (label + 1)"
        using dns_char_safe [of s3 load "pos + 1" len 3] s3 Suc.prems(2) by auto
      have s0': "dns_ok (Some s0)" using s0 Suc.prems by (cases s0) (simp add: dns_ok_def)
      have "dns_ok (dns_labels load pkt_end MAX_DNS_NAME (label + 1) n (pos + 1 + ucast len) s4)"
        using Suc.IH [OF s4(3) _ s4(2)] Suc.prems by simp
      then show ?thesis
        using st s0' s0(1) s1(1) s2(1) s3(1) s4(1) Some Cons by (simp add: Let_def)
    qed
  qed
qed

text \<open>The name is always terminated inside its array, whatever the packet holds.\<close>

lemma parse_dns_name_safe:
  assumes "length out = 64"
  shows "\<exists>out'. parse_dns_name load off pkt_end out MAX_DNS_NAME = Some out' \<and>
    length out' = 64 \<and> NUL \<in> set (take 41 out')"
proof -
  obtain p o' where *: "dns_labels load pkt_end MAX_DNS_NAME 0 8 (off + 12) (0, out) = Some (p, o')"
    "length o' = 64" "unat p \<le> 40"
    using dns_labels_safe [of "(0, out)" 0 8 load pkt_end "off + 12"] assms
    by (auto simp: dns_ok_def)
  then have "NUL \<in> set (take 41 (o'[unat p := NUL]))"
    by (auto simp: take_update_swap intro!: set_update_memI)
  moreover have "p < MAX_DNS_NAME" using * by (simp add: word_less_nat_alt MAX_DNS_NAME_def)
  ultimately show ?thesis using * by (simp add: parse_dns_name_def)
qed

text \<open>Encoded names, and the text the parser is meant to show: the first four bytes of each of the
  first eight labels, separated by dots.\<close>

definition dns_encode :: "u8 list list \<Rightarrow> u8 list" where
  "dns_encode ls = concat (map (\<lambda>l. word_of_nat (length l) # l) ls)"

fun dotted :: "string list \<Rightarrow> string" where
  "dotted [] = []"
| "dotted [l] = l"
| "dotted (l # ls) = l @ CHR ''.'' # dotted ls"

definition dns_shown :: "u8 list list \<Rightarrow> string" where
  "dns_shown ls = dotted (map (\<lambda>l. map chr_of (take 4 l)) (take 8 ls))"

definition dns_rest :: "nat \<Rightarrow> u8 list list \<Rightarrow> string" where
  "dns_rest label ls =
     (if 0 < label \<and> ls \<noteq> [] then [CHR ''.''] else []) @ dotted (map (\<lambda>l. map chr_of (take 4 l)) ls)"

lemma dns_rest_Cons:
  "dns_rest label (l # ls) =
    (if 0 < label then [CHR ''.''] else []) @ map chr_of (take 4 l) @ dns_rest (Suc label) ls"
  by (cases ls) (simp_all add: dns_rest_def)

lemma label_not_pointer:
  assumes "k < 64" shows "(word_of_nat k :: u8) AND 0xC0 \<noteq> 0xC0"
proof
  assume "(word_of_nat k :: u8) AND 0xC0 = 0xC0"
  then have "0xC0 \<le> (word_of_nat k :: u8)" using word_and_le2 by metis
  then show False using assms by (simp add: word_le_nat_alt unat_of_nat take_bit_nat_eq_self)
qed

lemma dns_char_step:
  assumes "load (pos + word_of_nat k) 1 = Some [b]" and "k < unat len"
    and "length done < 63"
  shows "dns_char load MAX_DNS_NAME pos len k (word_of_nat (length done), done @ x # slack) =
    Some (word_of_nat (length (done @ [chr_of b])), (done @ [chr_of b]) @ slack)"
  using assms by (simp add: dns_char_def MAX_DNS_NAME_def word_less_nat_alt unat_u32_of_nat)

lemma dns_char_skip: "\<not> k < unat len \<Longrightarrow> dns_char load out_max pos len k st = Some st"
  by (cases st) (simp add: dns_char_def)

lemma dns_char_at:
  assumes "\<And>k. k < length l \<Longrightarrow> load (pos + word_of_nat k) 1 = Some [l ! k]"
    and "unat len = length l" and "d = done @ map chr_of (take k l)"
    and "length done \<le> 40" and "k < 4" and "length d + length slack = 64"
  shows "\<exists>slack'. dns_char load MAX_DNS_NAME pos len k (word_of_nat (length d), d @ slack) =
      Some (word_of_nat (length (done @ map chr_of (take (Suc k) l))),
            (done @ map chr_of (take (Suc k) l)) @ slack') \<and>
    length (done @ map chr_of (take (Suc k) l)) + length slack' = 64"
proof (cases "k < length l")
  case True
  have d: "length d < 63" using assms(3-5) by simp
  then obtain x slack' where s: "slack = x # slack'"
    using assms(6) by (cases slack) auto
  have "dns_char load MAX_DNS_NAME pos len k (word_of_nat (length d), d @ x # slack') =
      Some (word_of_nat (length (d @ [chr_of (l ! k)])), (d @ [chr_of (l ! k)]) @ slack')"
    using dns_char_step [of load pos k "l ! k" len d x slack'] assms(1) [OF True] assms(2) True d
    by simp
  then show ?thesis
    using True assms(3,6) s by (intro exI [of _ slack']) (simp add: take_Suc_conv_app_nth)
next
  case False
  then show ?thesis
    using assms by (intro exI [of _ slack]) (simp add: dns_char_skip)
qed

lemma dns_label_chars:
  assumes "\<And>k. k < length l \<Longrightarrow> load (pos + word_of_nat k) 1 = Some [l ! k]"
    and "unat len = length l" and "length done \<le> 40" and "length done + length slack = 64"
  shows "\<exists>slack'. Option.bind (dns_char load MAX_DNS_NAME pos len 0 (word_of_nat (length done), done @ slack))
      (\<lambda>st. Option.bind (dns_char load MAX_DNS_NAME pos len 1 st)
      (\<lambda>st. Option.bind (dns_char load MAX_DNS_NAME pos len 2 st)
      (\<lambda>st. Option.bind (dns_char load MAX_DNS_NAME pos len 3 st) f))) =
    f (word_of_nat (length (done @ map chr_of (take 4 l))), (done @ map chr_of (take 4 l)) @ slack') \<and>
    length (done @ map chr_of (take 4 l)) + length slack' = 64"
proof -
  note at = dns_char_at [of l load pos len "done @ map chr_of (take k l)" "done" k for k,
      OF assms(1,2) refl assms(3)]
  let ?d = "\<lambda>k. done @ map chr_of (take k l)"
  let ?c = "\<lambda>k slack. dns_char load MAX_DNS_NAME pos len k (word_of_nat (length (?d k)), ?d k @ slack)"
  obtain s0 where s0: "?c 0 slack = Some (word_of_nat (length (?d 1)), ?d 1 @ s0)"
    "length (?d 1) + length s0 = 64"
    using at [of 0 slack] assms(4) by auto
  obtain s1 where s1: "?c 1 s0 = Some (word_of_nat (length (?d 2)), ?d 2 @ s1)"
    "length (?d 2) + length s1 = 64"
    using at [of 1 s0] s0(2) by (auto simp: numeral_2_eq_2)
  obtain s2 where s2: "?c 2 s1 = Some (word_of_nat (length (?d 3)), ?d 3 @ s2)"
    "length (?d 3) + length s2 = 64"
    using at [of 2 s1] s1(2) by (auto simp: numeral_3_eq_3)
  obtain s3 where s3: "?c 3 s2 = Some (word_of_nat (length (?d 4)), ?d 4 @ s3)"
    "length (?d 4) + length s3 = 64"
    using at [of 3 s2] s2(2) by auto
  show ?thesis
    using s0(1) s1(1) s2(1) s3 by (intro exI [of _ s3]) (simp del: length_append)
qed

lemma dns_labels_stop:
  assumes "load pos 1 = Some [0]"
  shows "dns_labels load pkt_end out_max label n pos st = Some st"
  using assms by (cases n) simp_all

lemma dns_dot_at:
  assumes "length done \<le> 40" and "length done + length slack = 64"
  shows "\<exists>slack'. dns_dot MAX_DNS_NAME label (word_of_nat (length done), done @ slack) =
      Some (word_of_nat (length (done @ (if 0 < label then [CHR ''.''] else []))),
            (done @ (if 0 < label then [CHR ''.''] else [])) @ slack') \<and>
    length (done @ (if 0 < label then [CHR ''.''] else [])) + length slack' = 64"
proof -
  obtain x slack' where "slack = x # slack'" using assms by (cases slack) auto
  then show ?thesis
    using assms by (cases "label = 0")
      (auto simp: dns_dot_def less_63 unat_u32_of_nat intro: exI [of _ slack'])
qed

lemma dns_labels_encoded:
  assumes "fr = pre @ dns_encode ls @ 0 # rest" and "length fr < 2 ^ 31" and "load_holds load fr"
    and "\<forall>l \<in> set ls. 0 < length l \<and> length l < 64"
    and "length done \<le> 5 * label" and "label + n \<le> 8" and "length done + length slack = 64"
  shows "\<exists>slack'. dns_labels load (word_of_nat (length fr)) MAX_DNS_NAME label n
      (word_of_nat (length pre)) (word_of_nat (length done), done @ slack) =
    Some (word_of_nat (length (done @ dns_rest label (take n ls))),
          (done @ dns_rest label (take n ls)) @ slack') \<and>
    length (done @ dns_rest label (take n ls)) + length slack' = 64 \<and>
    length (done @ dns_rest label (take n ls)) \<le> 40"
  using assms(1,4-7)
proof (induction n arbitrary: label ls pre "done" slack)
  case 0
  then show ?case by (auto simp: dns_rest_def)
next
  case (Suc n)
  have acc: "skb_access load fr" using assms(3) by unfold_locales
  have fr_len: "length pre < length fr" using Suc.prems(1) by (cases ls) (simp_all add: dns_encode_def)
  then have pre: "length pre < 2 ^ 32" using assms(2) by simp
  show ?case
  proof (cases ls)
    case Nil
    then have "load (word_of_nat (length pre)) 1 = Some [0]"
      using skb_access.load_at [OF acc, of pre "[0]" rest] Suc.prems(1) pre by (simp add: dns_encode_def)
    then show ?thesis
      using Nil Suc.prems dns_labels_stop by (intro exI [of _ slack]) (simp add: dns_rest_def)
  next
    case (Cons l ls')
    let ?len = "word_of_nat (length l) :: u8"
    have l: "0 < length l" "length l < 64" using Suc.prems(2) Cons by simp_all
    then have len: "unat ?len = length l" by (simp add: unat_of_nat take_bit_nat_eq_self)
    let ?pre = "pre @ ?len # l"
    have fr: "fr = ?pre @ dns_encode ls' @ 0 # rest"
      and fr1: "fr = pre @ [?len] @ (l @ dns_encode ls' @ 0 # rest)"
      using Suc.prems(1) Cons by (simp_all add: dns_encode_def)
    have pos: "word_of_nat (length pre) + 1 + ucast ?len = (word_of_nat (length ?pre) :: u32)"
      by (simp add: ucast_u8_u32 len)
    have ld: "load (word_of_nat (length pre)) 1 = Some [?len]"
      using skb_access.load_at [OF acc fr1 pre] by simp
    have chars: "load (word_of_nat (length pre) + 1 + word_of_nat k) 1 = Some [l ! k]"
      if "k < length l" for k
    proof -
      have "fr = (pre @ ?len # take k l) @ [l ! k] @ (drop (Suc k) l @ dns_encode ls' @ 0 # rest)"
        using fr id_take_nth_drop [OF that] by (metis append.assoc append_Cons append_Nil)
      from skb_access.load_at [OF acc this, of 1] that fr assms(2) show ?thesis
        by (simp add: ac_simps)
    qed
    let ?dot = "if 0 < label then [CHR ''.''] else []"
    let ?d = "done @ ?dot" and ?d' = "(done @ ?dot) @ map chr_of (take 4 l)"
    obtain s1 where s1: "dns_dot MAX_DNS_NAME label (word_of_nat (length done), done @ slack) =
        Some (word_of_nat (length ?d), ?d @ s1)" "length ?d + length s1 = 64"
      using dns_dot_at [of "done" slack label] Suc.prems by auto
    have lens: "length pre + 1 \<le> length fr" "length ?pre \<le> length fr" "length fr < 2 ^ 32"
      using fr fr_len assms(2) by simp_all
    then have "\<not> (word_of_nat (length fr) :: u32) < word_of_nat (length pre + 1)"
      "\<not> (word_of_nat (length fr) :: u32) < word_of_nat (length ?pre)"
      by (simp_all add: u32_of_nat_less del: of_nat_add of_nat_Suc length_append)
    then have bounds: "\<not> word_of_nat (length fr) < word_of_nat (length pre) + (1 :: u32)"
      "\<not> word_of_nat (length fr) < word_of_nat (length pre) + 1 + (ucast ?len :: u32)"
      unfolding pos by (simp_all add: add.commute)
    have bounds': "\<not> MAX_DNS_NAME - 1 \<le> word_of_nat (length done)" "?len \<noteq> 0"
      using less_63 [of "word_of_nat (length done)"] len l Suc.prems(3,4)
      by (auto simp: unat_u32_of_nat simp flip: not_less)
    have "length ?d \<le> 40" using Suc.prems by simp
    from dns_label_chars [of l load "word_of_nat (length pre) + 1" ?len ?d s1, OF chars len this s1(2)]
    obtain s2 where s2: "length ?d' + length s2 = 64"
      "dns_labels load (word_of_nat (length fr)) MAX_DNS_NAME label (Suc n)
        (word_of_nat (length pre)) (word_of_nat (length done), done @ slack) =
       dns_labels load (word_of_nat (length fr)) MAX_DNS_NAME (label + 1) n
        (word_of_nat (length ?pre)) (word_of_nat (length ?d'), ?d' @ s2)"
      using ld s1(1) bounds bounds' label_not_pointer [OF l(2)] pos
      by (auto simp: Let_def simp del: length_append append_assoc)
    have c: "\<forall>l \<in> set ls'. 0 < length l \<and> length l < 64" "Suc label + n \<le> 8"
      using Suc.prems Cons by simp_all
    have "length ?d' \<le> 5 * Suc label" using Suc.prems(3) by (auto simp: min_def)
    then obtain s3 where "dns_labels load (word_of_nat (length fr)) MAX_DNS_NAME (Suc label) n
        (word_of_nat (length ?pre)) (word_of_nat (length ?d'), ?d' @ s2) =
      Some (word_of_nat (length (?d' @ dns_rest (Suc label) (take n ls'))),
            (?d' @ dns_rest (Suc label) (take n ls')) @ s3)"
      "length (?d' @ dns_rest (Suc label) (take n ls')) + length s3 = 64"
      "length (?d' @ dns_rest (Suc label) (take n ls')) \<le> 40"
      using Suc.IH [OF fr c(1) _ c(2) s2(1)] by blast
    then show ?thesis
      using s2(2) Cons by (intro exI [of _ s3]) (simp add: dns_rest_Cons)
  qed
qed


lemma NUL_notin_dotted: "\<forall>x \<in> set xs. NUL \<notin> set x \<Longrightarrow> NUL \<notin> set (dotted xs)"
  by (induction xs rule: dotted.induct) auto

lemma NUL_chr_of: "NUL = chr_of b \<longleftrightarrow> b = 0"
  using byte_of_chr_of [of b] byte_of_NUL by (metis chr_of_byte_of)

text \<open>C21: the DNS hint shows what it is meant to show: for every encoded name of labels of 1 to 63
  bytes behind a 12-byte DNS header, inside the frame, the array holds exactly the first four bytes
  of each of the first eight labels, joined by dots and terminated.\<close>

theorem dns_hint_of_name:
  assumes "fr = pre @ hdr @ dns_encode ls @ 0 # rest" and "length hdr = 12" and "length fr < 2 ^ 31"
    and "load_holds load fr" and "length out = 64"
    and "\<forall>l \<in> set ls. 0 < length l \<and> length l < 64"
  shows "\<exists>out'. parse_dns_name load (word_of_nat (length pre)) (word_of_nat (length fr)) out
      MAX_DNS_NAME = Some out' \<and>
    take (length (dns_shown ls) + 1) out' = dns_shown ls @ [NUL] \<and>
    ((\<forall>l \<in> set ls. 0 \<notin> set l) \<longrightarrow> cstr out' = dns_shown ls)"
proof -
  have fr: "fr = (pre @ hdr) @ dns_encode ls @ 0 # rest" using assms(1) by simp
  have shown: "dns_rest 0 (take 8 ls) = dns_shown ls" by (simp add: dns_rest_def dns_shown_def)
  have pos: "word_of_nat (length (pre @ hdr)) = word_of_nat (length pre) + (12 :: u32)"
    using assms(2) by simp
  obtain slack where *: "dns_labels load (word_of_nat (length fr)) MAX_DNS_NAME 0 8
      (word_of_nat (length pre) + 12) (0, out) =
    Some (word_of_nat (length (dns_shown ls)), dns_shown ls @ slack)"
    "length (dns_shown ls) + length slack = 64" "length (dns_shown ls) \<le> 40"
    using dns_labels_encoded [OF fr assms(3,4,6), of "[]" 0 8 out] assms(5) unfolding shown pos
    by auto
  then obtain x slack' where sl: "slack = x # slack'" by (cases slack) auto
  have "(word_of_nat (length (dns_shown ls)) :: u32) < MAX_DNS_NAME"
    using *(3) by (simp add: word_less_nat_alt MAX_DNS_NAME_def unat_u32_of_nat)
  then have p: "parse_dns_name load (word_of_nat (length pre)) (word_of_nat (length fr)) out
      MAX_DNS_NAME = Some (dns_shown ls @ NUL # slack')"
    using * sl by (simp add: parse_dns_name_def unat_u32_of_nat)
  have "NUL \<notin> set (dns_shown ls)" if z: "\<forall>l \<in> set ls. 0 \<notin> set l"
    unfolding dns_shown_def
  proof (rule NUL_notin_dotted)
    show "\<forall>x \<in> set (map (\<lambda>l. map chr_of (take 4 l)) (take 8 ls)). NUL \<notin> set x"
      using z by (auto simp: NUL_chr_of dest!: in_set_takeD)
  qed
  then have "cstr (dns_shown ls @ NUL # slack') = dns_shown ls" if "\<forall>l \<in> set ls. 0 \<notin> set l"
    using that by (simp add: cstr_append_NUL)
  then show ?thesis using p by simp
qed

lemma dns_hint_of_name_witness:
  "\<exists>out'. parse_dns_name (frame_load (replicate 12 0 @ dns_encode [[119, 119, 119], [101, 120, 97, 109, 112, 108, 101]] @ [0]))
      0 25 (replicate 64 CHR ''x'') MAX_DNS_NAME = Some out' \<and> cstr out' = ''www.exam''"
proof -
  let ?ls = "[[119, 119, 119], [101, 120, 97, 109, 112, 108, 101]] :: u8 list list"
  let ?fr = "replicate 12 0 @ dns_encode ?ls @ [0]"
  have "dns_shown ?ls = ''www.exam''" by code_simp
  moreover have "length ?fr = 25" by (simp add: dns_encode_def)
  ultimately show ?thesis
    using dns_hint_of_name [of ?fr "[]" "replicate 12 0" ?ls "[]" "frame_load ?fr" "replicate 64 CHR ''x''"]
    by (auto simp: frame_load_holds)
qed

end
