(* ===== verification/Pksniff_Filter.thy ===== *)
theory Pksniff_Filter
  imports Pksniff_Bpf
begin

text \<open>
  The display filter of \<open>pksniff\<close> (\<open>pksniff/Pksniff.c\<close>): the parser of filter lines, the
  predicate on events, the summary in the filter bar, and the line editor.
\<close>

section \<open>Names\<close>

definition proto_str :: "u8 \<Rightarrow> string" where
  "proto_str p = (if p = IPPROTO_TCP then ''TCP'' else if p = IPPROTO_UDP then ''UDP''
     else if p = IPPROTO_ICMP then ''ICMP'' else ''???'')"

definition app_str :: "u8 \<Rightarrow> string" where
  "app_str t = (if t = APP_DNS then ''DNS'' else if t = APP_HTTP then ''HTTP''
     else if t = APP_TLS then ''TLS'' else if t = APP_ICMP then ''ICMP'' else [])"

section \<open>The filter\<close>

text \<open>The address is a C string in an array of 16 bytes that \<open>memset\<close> clears before each use.\<close>

record filter_st =
  f_ip :: string
  f_port :: u16
  f_proto :: u8
  f_app :: u8
  f_dir :: u8

definition no_filter :: filter_st where
  "no_filter = \<lparr>f_ip = [], f_port = 0, f_proto = 0, f_app = 0, f_dir = 0xFF\<rparr>"

definition event_matches :: "filter_st \<Rightarrow> pk_event \<Rightarrow> bool" where
  "event_matches f e =
     (if f_ip f \<noteq> [] \<and> strstr (ip_str (pk_src_ip e)) (f_ip f) = None \<and>
         strstr (ip_str (pk_dst_ip e)) (f_ip f) = None then False
      else if f_port f \<noteq> 0 \<and> pk_src_port e \<noteq> f_port f \<and> pk_dst_port e \<noteq> f_port f then False
      else if f_proto f \<noteq> 0 \<and> pk_ip_proto e \<noteq> f_proto f then False
      else if f_app f \<noteq> 0 \<and> pk_app_tag e \<noteq> f_app f then False
      else if f_dir f \<noteq> 0xFF \<and> pk_direction e \<noteq> f_dir f then False
      else True)"

text \<open>One token of a filter line.\<close>

definition filter_token :: "filter_st \<Rightarrow> string \<Rightarrow> filter_st" where
  "filter_token f tok =
     (if has_prefix ''ip:'' tok then f\<lparr>f_ip := take 15 (drop 3 tok)\<rparr>
      else if has_prefix ''port:'' tok then f\<lparr>f_port := ucast (atoi (drop 5 tok))\<rparr>
      else if has_prefix ''proto:'' tok then
        (let p = drop 6 tok
         in if strcaseeq p ''tcp'' then f\<lparr>f_proto := IPPROTO_TCP\<rparr>
            else if strcaseeq p ''udp'' then f\<lparr>f_proto := IPPROTO_UDP\<rparr>
            else if strcaseeq p ''icmp'' then f\<lparr>f_proto := IPPROTO_ICMP\<rparr> else f)
      else if has_prefix ''app:'' tok then
        (let p = drop 4 tok
         in if strcaseeq p ''dns'' then f\<lparr>f_app := APP_DNS\<rparr>
            else if strcaseeq p ''http'' then f\<lparr>f_app := APP_HTTP\<rparr>
            else if strcaseeq p ''tls'' then f\<lparr>f_app := APP_TLS\<rparr> else f)
      else if has_prefix ''dir:'' tok then
        (let p = drop 4 tok
         in if strcaseeq p ''in'' then f\<lparr>f_dir := DIR_INGRESS\<rparr>
            else if strcaseeq p ''out'' then f\<lparr>f_dir := DIR_EGRESS\<rparr> else f)
      else f)"

text \<open>The line is copied into a buffer of 128 bytes first.\<close>

definition parse_filter_str :: "string \<Rightarrow> filter_st" where
  "parse_filter_str s = foldl filter_token no_filter (strtok_all (take 127 (cstr s)))"

text \<open>The summary \<open>draw_filter_bar\<close> builds with \<open>strncat\<close> in an array of 256 bytes.\<close>

definition strncat256 :: "string \<Rightarrow> string \<Rightarrow> string" where
  "strncat256 s t = s @ take (256 - length s - 1) t"

definition filter_summary :: "filter_st \<Rightarrow> string" where
  "filter_summary f =
     (let s = [];
          s = (if f_ip f \<noteq> [] then strncat256 (s @ ''ip:'') (f_ip f) else s);
          s = (if f_port f \<noteq> 0 then strncat256 s (take 15 ('' port:'' @ dec32 (f_port f))) else s);
          s = (if f_proto f \<noteq> 0 then strncat256 s (take 15 ('' proto:'' @ proto_str (f_proto f))) else s);
          s = (if f_app f \<noteq> 0 then strncat256 s (take 15 ('' app:'' @ app_str (f_app f))) else s);
          s = (if f_dir f \<noteq> 0xFF
               then strncat256 s (if f_dir f = DIR_INGRESS then '' dir:in'' else '' dir:out'') else s)
      in s)"

section \<open>Properties of the filter\<close>

text \<open>The filters a line can describe.\<close>

definition filter_wf :: "filter_st \<Rightarrow> bool" where
  "filter_wf f \<longleftrightarrow> length (f_ip f) \<le> 15 \<and> CHR '' '' \<notin> set (f_ip f) \<and> NUL \<notin> set (f_ip f) \<and>
     f_proto f \<in> {0, IPPROTO_TCP, IPPROTO_UDP, IPPROTO_ICMP} \<and>
     f_app f \<in> {0, APP_DNS, APP_HTTP, APP_TLS} \<and> f_dir f \<in> {0xFF, DIR_INGRESS, DIR_EGRESS}"

lemma no_filter_wf: "filter_wf no_filter"
  by (simp add: filter_wf_def no_filter_def)

lemma filter_token_wf:
  assumes "filter_wf f" and "CHR '' '' \<notin> set tok" and "NUL \<notin> set tok"
  shows "filter_wf (filter_token f tok)"
  using assms
  by (auto simp: filter_wf_def filter_token_def Let_def dest!: in_set_takeD in_set_dropD)

lemma foldl_filter_token_wf:
  "filter_wf f \<Longrightarrow> \<forall>t \<in> set ts. CHR '' '' \<notin> set t \<and> NUL \<notin> set t \<Longrightarrow> filter_wf (foldl filter_token f ts)"
  by (induction ts arbitrary: f) (simp_all add: filter_token_wf)

lemma parse_filter_wf: "filter_wf (parse_filter_str s)"
proof -
  have "CHR '' '' \<notin> set t \<and> NUL \<notin> set t" if "t \<in> set (strtok_all (take 127 (cstr s)))" for t
    using strtok_all_props [OF that] NUL_notin_cstr [of s] by (meson in_set_takeD subset_iff)
  then show ?thesis
    unfolding parse_filter_str_def by (intro foldl_filter_token_wf no_filter_wf) blast
qed

text \<open>The pieces of the summary.\<close>

definition summary_toks :: "filter_st \<Rightarrow> string list" where
  "summary_toks f =
     (if f_ip f \<noteq> [] then [''ip:'' @ f_ip f] else []) @
     (if f_port f \<noteq> 0 then [''port:'' @ dec32 (f_port f)] else []) @
     (if f_proto f \<noteq> 0 then [''proto:'' @ proto_str (f_proto f)] else []) @
     (if f_app f \<noteq> 0 then [''app:'' @ app_str (f_app f)] else []) @
     (if f_dir f \<noteq> 0xFF then [if f_dir f = DIR_INGRESS then ''dir:in'' else ''dir:out''] else [])"

lemma u16_ucast_ucast: "ucast (ucast p :: u32) = (p :: u16)"
  by (rule bit_word_eqI) (simp add: bit_simps)

lemma filter_token_ip: "filter_token g (''ip:'' @ s) = g\<lparr>f_ip := take 15 s\<rparr>"
  by (simp add: filter_token_def has_prefix_def)

lemma filter_token_port: "filter_token g (''port:'' @ dec32 (p :: u16)) = g\<lparr>f_port := p\<rparr>"
proof -
  have "ucast (atoi (dec32 p)) = p"
    using unat_u16_lt [of p] by (simp add: atoi_udec u16_ucast_ucast)
  then show ?thesis by (simp add: filter_token_def has_prefix_def)
qed

lemma filter_token_proto:
  assumes "p \<in> {IPPROTO_TCP, IPPROTO_UDP, IPPROTO_ICMP}"
  shows "filter_token g (''proto:'' @ proto_str p) = g\<lparr>f_proto := p\<rparr>"
proof -
  have "strcaseeq ''TCP'' ''tcp''" "\<not> strcaseeq ''UDP'' ''tcp''" "strcaseeq ''UDP'' ''udp''"
    "\<not> strcaseeq ''ICMP'' ''tcp''" "\<not> strcaseeq ''ICMP'' ''udp''" "strcaseeq ''ICMP'' ''icmp''"
    by code_simp+
  then show ?thesis
    using assms
    by (auto simp: filter_token_def has_prefix_def proto_str_def Let_def IPPROTO_TCP_def IPPROTO_UDP_def
        IPPROTO_ICMP_def)
qed

lemma filter_token_app:
  assumes "a \<in> {APP_DNS, APP_HTTP, APP_TLS}"
  shows "filter_token g (''app:'' @ app_str a) = g\<lparr>f_app := a\<rparr>"
proof -
  have "strcaseeq ''DNS'' ''dns''" "\<not> strcaseeq ''HTTP'' ''dns''" "strcaseeq ''HTTP'' ''http''"
    "\<not> strcaseeq ''TLS'' ''dns''" "\<not> strcaseeq ''TLS'' ''http''" "strcaseeq ''TLS'' ''tls''"
    by code_simp+
  then show ?thesis
    using assms by (auto simp: filter_token_def has_prefix_def app_str_def Let_def app_tags)
qed

lemma filter_token_dir:
  "filter_token g ''dir:in'' = g\<lparr>f_dir := DIR_INGRESS\<rparr>"
  "filter_token g ''dir:out'' = g\<lparr>f_dir := DIR_EGRESS\<rparr>"
proof -
  have "strcaseeq ''in'' ''in''" "\<not> strcaseeq ''out'' ''in''" "strcaseeq ''out'' ''out''"
    by code_simp+
  then show "filter_token g ''dir:in'' = g\<lparr>f_dir := DIR_INGRESS\<rparr>"
    "filter_token g ''dir:out'' = g\<lparr>f_dir := DIR_EGRESS\<rparr>"
    by (simp_all add: filter_token_def has_prefix_def Let_def)
qed

lemmas filter_token_summary =
  filter_token_ip filter_token_port filter_token_proto filter_token_app filter_token_dir

lemma foldl_summary_toks:
  assumes "filter_wf f"
  shows "foldl filter_token no_filter (summary_toks f) = f"
proof -
  have ip: "take 15 (f_ip f) = f_ip f" using assms by (simp add: filter_wf_def)
  have p: "f_proto f \<noteq> 0 \<Longrightarrow> f_proto f \<in> {IPPROTO_TCP, IPPROTO_UDP, IPPROTO_ICMP}"
    and a: "f_app f \<noteq> 0 \<Longrightarrow> f_app f \<in> {APP_DNS, APP_HTTP, APP_TLS}"
    and d: "f_dir f \<noteq> 0xFF \<Longrightarrow> f_dir f \<noteq> DIR_INGRESS \<Longrightarrow> f_dir f = DIR_EGRESS"
    using assms by (auto simp: filter_wf_def)
  let ?F = "foldl filter_token"
  have 1: "?F g (if f_ip f \<noteq> [] then [''ip:'' @ f_ip f] else []) = g\<lparr>f_ip := f_ip f\<rparr>"
    if "f_ip g = []" for g using that ip by (simp add: filter_token_ip del: append.simps)
  have 2: "?F g (if f_port f \<noteq> 0 then [''port:'' @ dec32 (f_port f)] else []) = g\<lparr>f_port := f_port f\<rparr>"
    if "f_port g = 0" for g using that by (simp add: filter_token_port del: append.simps)
  have 3: "?F g (if f_proto f \<noteq> 0 then [''proto:'' @ proto_str (f_proto f)] else []) = g\<lparr>f_proto := f_proto f\<rparr>"
    if "f_proto g = 0" for g using that p by (simp add: filter_token_proto del: append.simps)
  have 4: "?F g (if f_app f \<noteq> 0 then [''app:'' @ app_str (f_app f)] else []) = g\<lparr>f_app := f_app f\<rparr>"
    if "f_app g = 0" for g using that a by (simp add: filter_token_app del: append.simps)
  have 5: "?F g (if f_dir f \<noteq> 0xFF then [if f_dir f = DIR_INGRESS then ''dir:in'' else ''dir:out''] else []) =
      g\<lparr>f_dir := f_dir f\<rparr>"
    if "f_dir g = 0xFF" for g using that d by (auto simp: filter_token_dir)
  show ?thesis
    by (simp add: summary_toks_def no_filter_def 1 2 3 4 5 del: append.simps if_split)
qed

text \<open>The summary consists of these tokens, each with a space in front; only the address comes
  without one.\<close>

lemma app_str_len: "length (app_str a) \<le> 4" and proto_str_len: "length (proto_str p) \<le> 4"
  by (simp_all add: app_str_def proto_str_def)

lemma dec16_len: "length (dec32 (p :: u16)) \<le> 5"
  using length_udec_bound [of "unat p" 5] unat_u16_lt [of p] by simp

lemma filter_summary_toks:
  assumes "length (f_ip f) \<le> 15"
  shows "filter_summary f =
    (if f_ip f \<noteq> [] then ''ip:'' @ f_ip f else []) @
    (if f_port f \<noteq> 0 then '' port:'' @ dec32 (f_port f) else []) @
    (if f_proto f \<noteq> 0 then '' proto:'' @ proto_str (f_proto f) else []) @
    (if f_app f \<noteq> 0 then '' app:'' @ app_str (f_app f) else []) @
    (if f_dir f \<noteq> 0xFF then (if f_dir f = DIR_INGRESS then '' dir:in'' else '' dir:out'') else [])"
proof -
  have cat: "(if b then strncat256 u t else u) = u @ (if b then t else [])"
    if "length u + length t < 256" for b u t
    using that by (simp add: strncat256_def)
  have cut: "take 15 t = t" if "length t \<le> 15" for t :: string using that by simp
  let ?a1 = "if f_ip f \<noteq> [] then ''ip:'' @ f_ip f else []"
  let ?a2 = "if f_port f \<noteq> 0 then '' port:'' @ dec32 (f_port f) else []"
  let ?a3 = "if f_proto f \<noteq> 0 then '' proto:'' @ proto_str (f_proto f) else []"
  let ?a4 = "if f_app f \<noteq> 0 then '' app:'' @ app_str (f_app f) else []"
  let ?d = "if f_dir f = DIR_INGRESS then '' dir:in'' else '' dir:out''"
  have t: "length ('' port:'' @ dec32 (f_port f)) \<le> 11" "length ('' proto:'' @ proto_str (f_proto f)) \<le> 11"
    "length ('' app:'' @ app_str (f_app f)) \<le> 9" "length ?d \<le> 8"
    using dec16_len [of "f_port f"] proto_str_len [of "f_proto f"] app_str_len [of "f_app f"] by simp_all
  then have c: "take 15 ('' port:'' @ dec32 (f_port f)) = '' port:'' @ dec32 (f_port f)"
    "take 15 ('' proto:'' @ proto_str (f_proto f)) = '' proto:'' @ proto_str (f_proto f)"
    "take 15 ('' app:'' @ app_str (f_app f)) = '' app:'' @ app_str (f_app f)"
    by (intro cut; linarith)+
  have l: "length ?a1 \<le> 18" "length ?a2 \<le> 11" "length ?a3 \<le> 11" "length ?a4 \<le> 9"
    using assms t by (simp_all split: if_split)
  have s1: "(if f_ip f \<noteq> [] then strncat256 ([] @ ''ip:'') (f_ip f) else []) = ?a1"
    using assms by (simp add: strncat256_def)
  show ?thesis
    unfolding filter_summary_def Let_def s1 c
    using l t by (simp only: cat length_append append_assoc)
qed

lemma strtok_spaced:
  "\<forall>w \<in> set ws. w \<noteq> [] \<and> CHR '' '' \<notin> set w \<Longrightarrow> strtok_all (concat (map ((#) CHR '' '') ws)) = ws"
proof (induction ws)
  case Nil
  then show ?case by simp
next
  case (Cons w ws)
  then show ?case by (cases ws) (simp_all add: strtok_all_word_end strtok_all_word_space)
qed

lemma strtok_first_spaced:
  assumes "w \<noteq> []" and "CHR '' '' \<notin> set w" and "\<forall>w \<in> set ws. w \<noteq> [] \<and> CHR '' '' \<notin> set w"
  shows "strtok_all (w @ concat (map ((#) CHR '' '') ws)) = w # ws"
  using assms strtok_spaced [OF assms(3)]
  by (cases ws) (simp_all add: strtok_all_word_end strtok_all_word_space)

lemma filter_summary_parses:
  assumes "filter_wf f"
  shows "strtok_all (take 127 (cstr (filter_summary f))) = summary_toks f"
proof -
  have ip: "length (f_ip f) \<le> 15" "CHR '' '' \<notin> set (f_ip f)" "NUL \<notin> set (f_ip f)"
    using assms by (simp_all add: filter_wf_def)
  let ?ws = "(if f_port f \<noteq> 0 then [''port:'' @ dec32 (f_port f)] else []) @
     (if f_proto f \<noteq> 0 then [''proto:'' @ proto_str (f_proto f)] else []) @
     (if f_app f \<noteq> 0 then [''app:'' @ app_str (f_app f)] else []) @
     (if f_dir f \<noteq> 0xFF then [if f_dir f = DIR_INGRESS then ''dir:in'' else ''dir:out''] else [])"
  let ?h = "if f_ip f \<noteq> [] then ''ip:'' @ f_ip f else []"
  have s: "filter_summary f = ?h @ concat (map ((#) CHR '' '') ?ws)"
    unfolding filter_summary_toks [OF ip(1)] by simp
  have "CHR '' '' \<notin> set (proto_str p)" "NUL \<notin> set (proto_str p)"
    "CHR '' '' \<notin> set (app_str p)" "NUL \<notin> set (app_str p)" for p
    by (simp_all add: proto_str_def app_str_def)
  then have w: "\<forall>w \<in> set ?ws. w \<noteq> [] \<and> CHR '' '' \<notin> set w" "\<forall>w \<in> set ?ws. NUL \<notin> set w"
    by (auto simp: udec_no_space)
  have toks: "strtok_all (filter_summary f) = summary_toks f"
    using strtok_spaced [OF w(1)] strtok_first_spaced [OF _ _ w(1), of "''ip:'' @ f_ip f"] ip(2)
    unfolding s summary_toks_def by (cases "f_ip f = []") simp_all
  have "NUL \<notin> set (filter_summary f)" unfolding s using w(2) ip(3) by (auto split: if_splits)
  moreover have "length (filter_summary f) \<le> 127"
    unfolding filter_summary_toks [OF ip(1)]
    using ip(1) dec16_len [of "f_port f"] proto_str_len [of "f_proto f"] app_str_len [of "f_app f"]
    by simp
  ultimately show ?thesis using toks by (simp add: cstr_id)
qed

text \<open>C24: the summary in the filter bar is faithful: typed in again, it sets exactly the filter it
  describes. This holds for every filter a line can set.\<close>

theorem filter_summary_roundtrip:
  "parse_filter_str (filter_summary (parse_filter_str s)) = parse_filter_str s"
  using filter_summary_parses [OF parse_filter_wf] foldl_summary_toks [OF parse_filter_wf]
  by (simp add: parse_filter_str_def)

section \<open>The line editor\<close>

text \<open>\<open>memmove\<close> of \<open>n\<close> bytes inside one array; \<open>None\<close> when it leaves the array.\<close>

definition memmove :: "'a list \<Rightarrow> nat \<Rightarrow> nat \<Rightarrow> nat \<Rightarrow> 'a list option" where
  "memmove a dst src n =
     (if dst + n \<le> length a \<and> src + n \<le> length a
      then Some (take dst a @ slice src n a @ drop (dst + n) a) else None)"

text \<open>Key codes of \<open>ncurses.h\<close>.\<close>

definition KEY_DOWN :: int where "KEY_DOWN = 258"
definition KEY_UP :: int where "KEY_UP = 259"
definition KEY_LEFT :: int where "KEY_LEFT = 260"
definition KEY_RIGHT :: int where "KEY_RIGHT = 261"
definition KEY_HOME :: int where "KEY_HOME = 262"
definition KEY_BACKSPACE :: int where "KEY_BACKSPACE = 263"
definition KEY_DC :: int where "KEY_DC = 330"
definition KEY_NPAGE :: int where "KEY_NPAGE = 338"
definition KEY_PPAGE :: int where "KEY_PPAGE = 339"
definition KEY_ENTER :: int where "KEY_ENTER = 343"
definition KEY_END :: int where "KEY_END = 360"
definition KEY_RESIZE :: int where "KEY_RESIZE = 410"

lemmas key_codes = KEY_DOWN_def KEY_UP_def KEY_LEFT_def KEY_RIGHT_def KEY_HOME_def KEY_BACKSPACE_def
  KEY_DC_def KEY_NPAGE_def KEY_PPAGE_def KEY_ENTER_def KEY_END_def KEY_RESIZE_def

text \<open>The editing keys of \<open>handle_input_filter\<close> on the buffer and the cursor.\<close>

definition edit_filter :: "int \<Rightarrow> char list \<times> nat \<Rightarrow> (char list \<times> nat) option" where
  "edit_filter ch st =
     (let (buf, cursor) = st; len = length (cstr buf)
      in if ch = KEY_BACKSPACE \<or> ch = 127 \<or> ch = 8 then
           (if 0 < cursor
            then map_option (\<lambda>buf. (buf, cursor - 1)) (memmove buf (cursor - 1) cursor (len - cursor + 1))
            else Some st)
         else if ch = KEY_LEFT then Some (buf, if 0 < cursor then cursor - 1 else cursor)
         else if ch = KEY_RIGHT then Some (buf, if cursor < len then cursor + 1 else cursor)
         else if ch = KEY_DC then
           (if cursor < len
            then map_option (\<lambda>buf. (buf, cursor)) (memmove buf cursor (cursor + 1) (len - cursor))
            else Some st)
         else if 32 \<le> ch \<and> ch < 127 \<and> len < 128 - 1 then
           Option.bind (memmove buf (cursor + 1) cursor (len - cursor + 1)) (\<lambda>buf.
             map_option (\<lambda>buf. (buf, cursor + 1)) (arr_set buf cursor (char_of (nat ch))))
         else Some st)"

text \<open>The abstract editor: the text before and behind the cursor.\<close>

definition edit_spec :: "int \<Rightarrow> string \<times> string \<Rightarrow> string \<times> string" where
  "edit_spec ch z =
     (let (l, r) = z
      in if ch = KEY_BACKSPACE \<or> ch = 127 \<or> ch = 8 then (butlast l, r)
         else if ch = KEY_LEFT then (if l = [] then z else (butlast l, last l # r))
         else if ch = KEY_RIGHT then (case r of [] \<Rightarrow> z | c # r' \<Rightarrow> (l @ [c], r'))
         else if ch = KEY_DC then (l, tl r)
         else if 32 \<le> ch \<and> ch < 127 \<and> length l + length r < 127 then (l @ [char_of (nat ch)], r)
         else z)"

definition edit_abs :: "char list \<times> nat \<Rightarrow> string \<times> string" where
  "edit_abs st = (take (snd st) (cstr (fst st)), drop (snd st) (cstr (fst st)))"

definition edit_inv :: "char list \<times> nat \<Rightarrow> bool" where
  "edit_inv st \<longleftrightarrow> length (fst st) = 128 \<and> NUL \<in> set (fst st) \<and> snd st \<le> length (cstr (fst st))"

text \<open>A buffer under the invariant, seen from the cursor.\<close>

lemma edit_decomp:
  assumes "edit_inv st"
  obtains l r z where "st = (l @ r @ NUL # z, length l)" "NUL \<notin> set l" "NUL \<notin> set r"
    "length l + length r + length z = 127" "edit_abs st = (l, r)" "cstr (fst st) = l @ r"
proof -
  obtain buf cursor where st: "st = (buf, cursor)" by (cases st)
  have i: "length buf = 128" "NUL \<in> set buf" "cursor \<le> length (cstr buf)"
    using assms by (simp_all add: edit_inv_def st)
  obtain z where z: "buf = cstr buf @ NUL # z" using cstr_decomp [OF i(2)] by blast
  let ?l = "take cursor (cstr buf)" and ?r = "drop cursor (cstr buf)"
  have "buf = ?l @ ?r @ NUL # z"
    unfolding append_assoc [symmetric] append_take_drop_id by (rule z)
  moreover have "length ?l = cursor" using i(3) by simp
  moreover have "NUL \<notin> set ?l" "NUL \<notin> set ?r"
    using NUL_notin_cstr [of buf] by (meson in_set_takeD in_set_dropD)+
  moreover have "length ?l + length ?r + length z = 127"
    using i(1,3) arg_cong [OF z, of length] by simp
  ultimately show ?thesis
    using that [of ?l ?r z] st by (simp add: edit_abs_def)
qed

lemma edit_compose:
  assumes "NUL \<notin> set l" and "NUL \<notin> set r" and "length l + length r + length z = 127"
  shows "edit_inv (l @ r @ NUL # z, length l) \<and> edit_abs (l @ r @ NUL # z, length l) = (l, r)"
  using assms by (simp add: edit_inv_def edit_abs_def cstr_append)

lemma edit_backspace:
  assumes "length (l @ [c]) + length r + length z = 127"
  shows "memmove ((l @ [c]) @ r @ NUL # z) (length l) (Suc (length l)) (Suc (length r)) =
    Some (l @ r @ NUL # NUL # z)"
  using assms by (simp add: memmove_def slice_def)

lemma edit_delete:
  assumes "length l + length (c # r) + length z = 127"
  shows "memmove (l @ (c # r) @ NUL # z) (length l) (Suc (length l)) (Suc (length r)) =
    Some (l @ r @ NUL # NUL # z)"
  using assms by (simp add: memmove_def slice_def)

lemma edit_insert:
  assumes "length l + length r + length (x # z) = 127"
  shows "\<exists>b. memmove (l @ r @ NUL # x # z) (Suc (length l)) (length l) (Suc (length r)) =
    Some (l @ b # r @ NUL # z)"
  using assms by (cases r) (simp_all add: memmove_def slice_def numeral_3_eq_3)

lemma edit_sim:
  assumes "edit_inv st"
  shows "\<exists>st'. edit_filter ch st = Some st' \<and> edit_inv st' \<and> edit_abs st' = edit_spec ch (edit_abs st)"
proof -
  obtain l r z where st: "st = (l @ r @ NUL # z, length l)" "NUL \<notin> set l" "NUL \<notin> set r"
    "length l + length r + length z = 127" "edit_abs st = (l, r)" "cstr (fst st) = l @ r"
    using edit_decomp [OF assms] .
  note compose = edit_compose
  consider (bs) "ch = KEY_BACKSPACE \<or> ch = 127 \<or> ch = 8" | (left) "ch = KEY_LEFT" | (right) "ch = KEY_RIGHT"
    | (dc) "ch = KEY_DC" | (ins) "32 \<le> ch" "ch < 127" "length l + length r < 127"
    | (other) "ch \<noteq> KEY_BACKSPACE" "ch \<noteq> 127" "ch \<noteq> 8" "ch \<noteq> KEY_LEFT" "ch \<noteq> KEY_RIGHT" "ch \<noteq> KEY_DC"
      "\<not> (32 \<le> ch \<and> ch < 127 \<and> length l + length r < 127)"
    by fastforce
  then show ?thesis
  proof cases
    case bs
    show ?thesis
    proof (cases l rule: rev_cases)
      case Nil
      then show ?thesis using bs st assms by (auto simp: edit_filter_def edit_spec_def)
    next
      case (snoc l' c)
      have "edit_filter ch st = Some (l' @ r @ NUL # NUL # z, length l')"
        using bs st snoc edit_backspace [of l' c r z] by (auto simp: edit_filter_def Let_def)
      moreover have "edit_spec ch (edit_abs st) = (l', r)"
        using bs st(5) snoc by (auto simp: edit_spec_def)
      ultimately show ?thesis using compose [of l' r "NUL # z"] st snoc by simp
    qed
  next
    case left
    show ?thesis
    proof (cases l rule: rev_cases)
      case Nil
      then show ?thesis using left st assms by (simp add: edit_filter_def edit_spec_def key_codes)
    next
      case (snoc l' c)
      then show ?thesis using left st compose [of l' "c # r" z]
        by (simp add: edit_filter_def edit_spec_def key_codes Let_def)
    qed
  next
    case right
    show ?thesis
    proof (cases r)
      case Nil
      then show ?thesis using right st assms by (simp add: edit_filter_def edit_spec_def key_codes Let_def)
    next
      case (Cons c r')
      then show ?thesis using right st compose [of "l @ [c]" r' z]
        by (simp add: edit_filter_def edit_spec_def key_codes Let_def)
    qed
  next
    case dc
    show ?thesis
    proof (cases r)
      case Nil
      then show ?thesis using dc st assms by (simp add: edit_filter_def edit_spec_def key_codes Let_def)
    next
      case (Cons c r')
      have "edit_filter ch st = Some (l @ r' @ NUL # NUL # z, length l)"
        using dc st Cons edit_delete [of l c r' z] by (simp add: edit_filter_def Let_def key_codes)
      moreover have "edit_spec ch (edit_abs st) = (l, r')"
        using dc st(5) Cons by (simp add: edit_spec_def key_codes)
      ultimately show ?thesis using compose [of l r' "NUL # z"] st Cons by simp
    qed
  next
    case ins
    obtain x z' where z: "z = x # z'" using ins st(4) by (cases z) auto
    obtain b where b: "memmove (l @ r @ NUL # x # z') (Suc (length l)) (length l) (Suc (length r)) =
        Some (l @ b # r @ NUL # z')"
      using edit_insert [of l r x z'] st(4) z by auto
    let ?c = "char_of (nat ch) :: char"
    have "edit_filter ch st = Some (l @ ?c # r @ NUL # z', length (l @ [?c]))"
      using ins st z b by (simp add: edit_filter_def Let_def key_codes)
    moreover have "edit_spec ch (edit_abs st) = (l @ [?c], r)"
      using ins st(5) by (simp add: edit_spec_def key_codes)
    moreover have "NUL \<noteq> ?c"
    proof
      assume "NUL = ?c"
      then have "(of_char NUL :: nat) = of_char ?c" by (rule arg_cong)
      then show False using ins by simp
    qed
    ultimately show ?thesis using compose [of "l @ [?c]" r z'] st z by simp
  next
    case other
    then show ?thesis using st assms by (auto simp: edit_filter_def edit_spec_def Let_def)
  qed
qed

interpretation editor: simulation edit_filter edit_spec edit_abs edit_inv
  by unfold_locales (rule edit_sim)

text \<open>C4: the filter line editor is correct: for every sequence of keys, from the empty line, no
  \<open>memmove\<close> or store leaves the 128-byte buffer, the buffer stays terminated, the cursor stays
  inside the text, and text and cursor are those of an editor on two plain strings.\<close>

theorem filter_editor_refines:
  "\<exists>buf cursor. run_steps edit_filter keys (replicate 128 NUL, 0) = Some (buf, cursor) \<and>
     length buf = 128 \<and> NUL \<in> set buf \<and>
     (take cursor (cstr buf), drop cursor (cstr buf)) = fold edit_spec keys ([], []) \<and>
     cursor \<le> length (cstr buf)"
proof -
  have i: "edit_inv (replicate 128 NUL, 0)" by (simp add: edit_inv_def)
  have a: "edit_abs (replicate 128 NUL, 0) = ([], [])"
    by (simp add: edit_abs_def numeral_eq_Suc)
  show ?thesis
    using editor.run_sim [OF i, of keys] unfolding a by (auto simp: edit_inv_def edit_abs_def)
qed

end
