(* ===== verification/Pksniff_Hints.thy ===== *)
theory Pksniff_Hints
  imports Pksniff_Bpf
begin

text \<open>
  What the HTTP and TLS hints of \<open>pksniff\<close> show: the exact effect of \<open>is_http\<close>,
  \<open>parse_http_info\<close> and \<open>parse_tls_sni\<close> on the string arrays of the scratch record, for the
  frames of a reference encoder of the TLS ClientHello.
\<close>

section \<open>The HTTP hint\<close>

lemma store_all_append:
  assumes "length old = length xs"
  shows "store_all (length done) xs (done @ old @ rest) = Some (done @ xs @ rest)"
  using assms
proof (induction xs arbitrary: "done" old)
  case Nil
  then show ?case by simp
next
  case (Cons x xs)
  then obtain y old' where old: "old = y # old'" "length old' = length xs"
    by (cases old) auto
  then show ?case
    using Cons.IH [of old' "done @ [x]"] by simp
qed

lemma store_all_prefix:
  "length xs \<le> length out \<Longrightarrow> store_all 0 xs out = Some (xs @ drop (length xs) out)"
  using store_all_append [of "take (length xs) out" xs "[]" "drop (length xs) out"] by simp

lemma http_char_single_line: "http_char b \<noteq> CHR 0x0D \<and> http_char b \<noteq> CHR 0x0A"
  by (simp add: http_char_def Let_def)

text \<open>The beginnings the heuristic knows.\<close>

definition http_starts :: "string list" where
  "http_starts = [''GET '', ''POST'', ''HEAD'', ''PUT '', ''DEL'', ''HTTP'']"

definition http_payload :: "u8 list \<Rightarrow> bool" where
  "http_payload p \<longleftrightarrow> 8 \<le> length p \<and> (\<exists>v \<in> set http_starts. prefix v (map chr_of p))"

lemma unat_off: "unat (ucast (po :: u16) + 8 :: u32) = unat po + 8"
  "unat (ucast (po :: u16) + 47 :: u32) = unat po + 47"
  using unat_u16_lt [of po] by (simp_all add: unat_word_ariths)

lemma has_prefix_take: "length v \<le> n \<Longrightarrow> has_prefix v (take n xs) = has_prefix v xs"
  by (simp add: has_prefix_def min_def)

lemma is_http_iff:
  assumes "skb_holds s fr"
  shows "is_http (skb_load s) (ucast (po :: u16)) (skb_len s) \<longleftrightarrow> http_payload (drop (unat po) fr)"
proof (cases "unat po + 8 \<le> length fr")
  case True
  have acc: "skb_access (skb_load s) fr"
    using assms by unfold_locales (simp add: skb_holds_def)
  have "map chr_of (slice (unat po) 8 fr) = take 8 (map chr_of (drop (unat po) fr))"
    by (simp add: slice_def take_map)
  moreover have "8 \<le> length fr - unat po" using True by simp
  ultimately show ?thesis
    using True assms skb_access.load_in [OF acc, of "ucast po" 8]
    by (simp add: is_http_def http_payload_def skb_holds_def word_less_nat_alt unat_off Let_def
        has_prefix_take http_starts_def flip: has_prefix_iff)
next
  case False
  then show ?thesis
    using assms by (simp add: is_http_def http_payload_def skb_holds_def word_less_nat_alt unat_off)
qed

lemma parse_http_info_exact:
  assumes "skb_holds s fr" and "length out = 48"
  shows "parse_http_info (skb_load s) (ucast (po :: u16)) (skb_len s) out MAX_HTTP_INFO =
    Some (if unat po + 47 \<le> length fr
          then map http_char (slice (unat po) 47 fr) @ [NUL] else out)"
proof (cases "unat po + 47 \<le> length fr")
  case True
  have acc: "skb_access (skb_load s) fr"
    using assms by unfold_locales (simp add: skb_holds_def)
  have len: "length (drop 47 out) = 1" using assms(2) by simp
  then obtain x where x: "drop 47 out = [x]" by (metis One_nat_def length_0_conv length_Suc_conv)
  have "skb_load s (ucast po) 47 = Some (slice (unat po) 47 fr)"
    using skb_access.load_in [OF acc, of "ucast po" 47] True by simp
  then show ?thesis
    using True assms x
    by (simp add: parse_http_info_def skb_holds_def word_less_nat_alt unat_off Let_def
        store_all_prefix MAX_HTTP_INFO_def arr_set_def list_update_append)
next
  case False
  have acc: "skb_access (skb_load s) fr"
    using assms by unfold_locales (simp add: skb_holds_def)
  show ?thesis
    using False skb_access.load_out [OF acc, of "ucast po" 47]
    by (simp add: parse_http_info_def MAX_HTTP_INFO_def Let_def)
qed

text \<open>C30: the HTTP hint: a TCP payload is tagged as HTTP exactly when it has at least 8 bytes and
  begins with one of the known verbs or \<open>HTTP\<close>; the line shown is the first 47 bytes of the
  payload without line breaks, provided the payload has that many: for a shorter request the tag
  is set and the line stays as it was, empty.\<close>

theorem http_hint_exact:
  assumes "skb_holds s fr" and "pk_wf e"
  shows "http_hint s po e = Some (
    (let p = drop (unat po) fr
     in if \<not> http_payload p then e
        else if length p < 47 then e\<lparr>pk_app_tag := APP_HTTP\<rparr>
        else e\<lparr>pk_app_tag := APP_HTTP, pk_http_info := map http_char (take 47 p) @ [NUL]\<rparr>)) \<and>
    (\<forall>b. http_char b \<noteq> CHR 0x0D \<and> http_char b \<noteq> CHR 0x0A)"
proof -
  have len: "length (pk_http_info e) = 48" using assms(2) by (simp add: pk_wf_def)
  have "http_payload (drop (unat po) fr) \<Longrightarrow> unat po < length fr"
    by (auto simp: http_payload_def)
  then show ?thesis
    using http_char_single_line
    by (auto simp: http_hint_def is_http_iff [OF assms(1)] parse_http_info_exact [OF assms(1) len]
        Let_def slice_def less_diff_conv2 not_le)
qed

definition pk_blank :: pk_event where
  "pk_blank =
     \<lparr>pk_ktime_ns = 0, pk_src_ip = 0, pk_dst_ip = 0, pk_ip_tot_len = 0, pk_ttl = 0, pk_ip_proto = 0,
      pk_ip_flags = 0, pk_src_port = 0, pk_dst_port = 0, pk_tcp_flags = 0, pk_l4_off = 0,
      pk_payload_off = 0, pk_payload_len = 0, pk_packet_len = 0, pk_cap_len = 0, pk_direction = 0,
      pk_app_tag = 0, pk_reserved = [0, 0], pk_dns_name = replicate 64 NUL,
      pk_http_info = replicate 48 NUL, pk_tls_sni = replicate 64 NUL, pk_packet = replicate 256 0\<rparr>"

lemma pk_blank_wf [simp]: "pk_wf pk_blank"
  by (simp add: pk_wf_def pk_blank_def)

definition short_get :: "u8 list" where
  "short_get = map byte_of ''GET / HTTP/1.1''"

lemma http_hint_exact_witness:
  "http_hint (frame_skb short_get 0) 0 pk_blank = Some (pk_blank\<lparr>pk_app_tag := APP_HTTP\<rparr>)"
proof -
  have "http_payload short_get" "length short_get < 47" "length short_get < 2 ^ 32"
    by (simp_all add: http_payload_def short_get_def http_starts_def)
  then show ?thesis
    using http_hint_exact [OF frame_skb_holds pk_blank_wf, of short_get 0 0] by (simp add: Let_def)
qed

section \<open>The TLS hint\<close>

text \<open>No packet makes the parser store outside the array, and a terminated string stays
  terminated.\<close>

definition sni_ok :: "char list option \<Rightarrow> bool" where
  "sni_ok r \<longleftrightarrow> (\<exists>a. r = Some a \<and> length a = 64 \<and> NUL \<in> set (take 16 a))"

lemma sni_copy_safe:
  "c + n \<le> 16 \<Longrightarrow> length out = 64 \<Longrightarrow>
   \<exists>a. sni_copy load base name_len c n out = Some a \<and> length a = 64"
  by (induction n arbitrary: c out) (auto split: option.split list.split)

lemma sni_extension_safe:
  assumes "length out = 64" and "NUL \<in> set (take 16 out)"
  shows "sni_ok (sni_extension load pos ext_end out out_max)"
proof -
  have "sni_ok (Some out)" using assms by (simp add: sni_ok_def)
  moreover have "sni_ok (Option.bind (sni_copy load base name_len 0 16 out)
      (\<lambda>out. arr_set out (16 - 1) NUL))" for base name_len
    using sni_copy_safe [of 0 16 out load base name_len] assms(1)
    by (auto simp: sni_ok_def take_update_swap intro!: set_update_memI)
  ultimately show ?thesis
    by (auto simp: sni_extension_def Let_def split: option.split)
qed

lemma tls_walk_safe:
  assumes "length out = 64" and "NUL \<in> set (take 16 out)"
  shows "sni_ok (tls_walk load ext_end out out_max n pos)"
proof -
  have "sni_ok (Some out)" using assms by (simp add: sni_ok_def)
  then show ?thesis
    by (induction n arbitrary: pos)
      (auto simp: Let_def sni_extension_safe [OF assms] split: option.split)
qed

lemma parse_tls_sni_safe:
  assumes "length out = 64" and "NUL \<in> set (take 16 out)"
  shows "sni_ok (parse_tls_sni load payload_off pkt_end out out_max)"
  using assms tls_walk_safe [OF assms]
  by (auto simp: parse_tls_sni_def sni_ok_def [of "Some out"] split: option.split)

text \<open>A reference encoder of the ClientHello record: session id, cipher suites, compression methods
  and extensions, each with its length in front. A server name extension holds a list with one
  entry.\<close>

definition len16 :: "nat \<Rightarrow> u8 list" where
  "len16 n = [word_of_nat (n div 256), word_of_nat n]"

definition tls_ext :: "u8 \<times> u8 \<times> u8 list \<Rightarrow> u8 list" where
  "tls_ext x = (case x of (t0, t1, d) \<Rightarrow> [t0, t1] @ len16 (length d) @ d)"

definition sni_data :: "u8 list \<Rightarrow> u8 list" where
  "sni_data name = len16 (length name + 3) @ [0] @ len16 (length name) @ name"

definition client_hello ::
  "u8 list \<Rightarrow> u8 list \<Rightarrow> u8 list \<Rightarrow> u8 list \<Rightarrow> u8 list \<Rightarrow> u8 list" where
  "client_hello hh sid cs cm exts =
     hh @ [word_of_nat (length sid)] @ sid @ len16 (length cs) @ cs @
     [word_of_nat (length cm)] @ cm @ len16 (length exts) @ exts"

text \<open>The first 43 bytes: record header, handshake header, version and random.\<close>

definition hello_head :: "u8 list \<Rightarrow> bool" where
  "hello_head h \<longleftrightarrow> length h = 43 \<and> h ! 0 = 0x16 \<and> h ! 5 = 0x01"

lemma length_len16 [simp]: "length (len16 n) = 2"
  by (simp add: len16_def)

lemma be16_len16: "n < 65536 \<Longrightarrow> unat (be16 (len16 n ! 0) (len16 n ! 1)) = n"
  by (simp add: len16_def unat_be16 unat_of_nat take_bit_eq_mod)

text \<open>The copy loop over a name.\<close>

lemma sni_copy_name:
  assumes "\<And>i. i < length name \<Longrightarrow> load (base + word_of_nat i) 1 = Some [name ! i]"
    and "\<And>i. i < 16 \<Longrightarrow> name_len \<le> word_of_nat i \<longleftrightarrow> length name \<le> i"
    and "length done + n \<le> 16" and "length done + length slack = 64"
    and "done = map chr_of (take (length done) name)"
  shows "sni_copy load base name_len (length done) n (done @ slack) =
    Some (map chr_of (take (length done + n) name) @
          drop (length (take (length done + n) name) - length done) slack)"
  using assms(3-5)
proof (induction n arbitrary: "done" slack)
  case 0
  then show ?case
    by (metis add_0_right append_Nil2 diff_is_0_eq' drop0 length_map order_refl sni_copy.simps(1))
next
  case (Suc n)
  have le: "length done \<le> length name"
    by (metis Suc.prems(3) length_map length_take min.cobounded1 min.commute)
  show ?case
  proof (cases "length done < length name")
    case True
    obtain x sl where sl: "slack = x # sl" using Suc.prems by (cases slack) auto
    have d: "done @ [chr_of (name ! length done)] = map chr_of (take (Suc (length done)) name)"
      using Suc.prems(3) True by (simp add: take_Suc_conv_app_nth)
    let ?d = "done @ [chr_of (name ! length done)]"
    have "sni_copy load base name_len (length ?d) n (?d @ sl) =
      Some (map chr_of (take (length ?d + n) name) @ drop (length (take (length ?d + n) name) - length ?d) sl)"
      using Suc.prems d True by (intro Suc.IH) (simp_all add: sl)
    then show ?thesis
      using True assms(1) [OF True] assms(2) [of "length done"] Suc.prems sl
      by (simp add: Suc_diff_le drop_Cons' min_def split: if_splits)
  next
    case False
    then show ?thesis
      using le assms(2) [of "length done"] Suc.prems by simp
  qed
qed

definition sni_shown :: "u8 list \<Rightarrow> char list \<Rightarrow> char list" where
  "sni_shown name out = (map chr_of (take 16 name) @ drop (min 16 (length name)) out)[15 := NUL]"

lemma sni_extension_name:
  assumes "fr = pre @ sni_data name @ rest" and "load_holds load fr" and "length fr < 2 ^ 31"
    and "length (pre @ sni_data name) \<le> ee" and "ee < 2 ^ 31"
    and "0 < length name" and "length name < 65536" and "length out = 64"
  shows "sni_extension load (word_of_nat (length pre)) (word_of_nat ee) out MAX_TLS_SNI =
    Some (sni_shown name out)"
proof -
  have acc: "skb_access load fr" using assms(2) by unfold_locales
  let ?h = "len16 (length name + 3) @ [0] @ len16 (length name)"
  have ld: "load (word_of_nat (length pre)) 5 = Some ?h"
    using skb_access.load_at [OF acc, of pre ?h "name @ rest" 5] assms(1,3) by (simp add: sni_data_def)
  let ?n0 = "be16 (?h ! 3) (?h ! 4)"
  have "?n0 = be16 (len16 (length name) ! 0) (len16 (length name) ! 1)"
    by (simp add: len16_def)
  then have n0: "unat ?n0 = length name" using be16_len16 [OF assms(7)] by simp
  define nl where "nl = (if MAX_TLS_SNI \<le> ucast ?n0 then ucast (MAX_TLS_SNI - 1) else ?n0)"
  have nl: "unat nl = min 63 (length name)"
    using n0 by (simp add: nl_def MAX_TLS_SNI_def word_le_nat_alt)
  have chars: "load (word_of_nat (length pre) + 5 + word_of_nat i) 1 = Some [name ! i]"
    if "i < length name" for i
  proof -
    have "fr = (pre @ ?h @ take i name) @ [name ! i] @ (drop (Suc i) name @ rest)"
      using assms(1) id_take_nth_drop [OF that] unfolding sni_data_def
      by (metis append.assoc append_Cons append_Nil)
    from skb_access.load_at [OF acc this, of 1] that assms(1,3) show ?thesis
      by (simp add: sni_data_def ac_simps)
  qed
  have stop: "nl \<le> word_of_nat i \<longleftrightarrow> length name \<le> i" if "i < 16" for i
    using that nl by (auto simp: word_le_nat_alt unat_of_nat take_bit_nat_eq_self)
  have copy: "sni_copy load (word_of_nat (length pre) + 5) nl 0 16 out =
      Some (map chr_of (take 16 name) @ drop (min 16 (length name)) out)"
    using sni_copy_name [of name load "word_of_nat (length pre) + 5" nl "[]" 16 out, OF chars stop]
      assms(8) by (simp add: min.commute)
  have p5: "(word_of_nat (length pre) :: u32) + 5 = word_of_nat (length pre + 5)" by simp
  have pn: "(word_of_nat (length pre) :: u32) + 5 + ucast nl = word_of_nat (length pre + 5 + unat nl)"
    by simp
  have e5: "\<not> (word_of_nat ee :: u32) < word_of_nat (length pre) + 5"
    unfolding p5 using assms(4,5) by (subst u32_of_nat_less) (simp_all add: sni_data_def)
  have en: "\<not> (word_of_nat ee :: u32) < word_of_nat (length pre) + 5 + ucast nl"
    unfolding pn using assms(4,5) nl by (subst u32_of_nat_less) (simp_all add: sni_data_def)
  have "?n0 \<noteq> 0" using n0 assms(6) by auto
  moreover have "Option.bind (sni_copy load (word_of_nat (length pre) + 5) nl 0 16 out)
      (\<lambda>out. arr_set out (16 - 1) NUL) = Some (sni_shown name out)"
    using copy assms(8) by (simp add: sni_shown_def)
  ultimately show ?thesis
    unfolding sni_extension_def Let_def ld option.case nl_def [symmetric]
    using e5 en by (simp only: if_False if_True)
qed

lemma length_tls_ext: "length (tls_ext (t0, t1, d)) = 4 + length d"
  by (simp add: tls_ext_def)

lemma be16_zero: "be16 a b = 0 \<longleftrightarrow> a = 0 \<and> b = 0"
proof -
  have "be16 a b = 0 \<longleftrightarrow> unat (be16 a b) = 0" by (simp add: unat_eq_0)
  then show ?thesis by (simp add: unat_be16 unat_eq_0)
qed

text \<open>One step over an extension of another type.\<close>

lemma tls_walk_skip:
  assumes "fr = pre @ tls_ext (t0, t1, d) @ rest" and "load_holds load fr" and "length fr < 2 ^ 31"
    and "length (pre @ tls_ext (t0, t1, d)) \<le> ee" and "ee < 2 ^ 31"
    and "length d < 65536" and "t0 \<noteq> 0 \<or> t1 \<noteq> 0"
  shows "tls_walk load (word_of_nat ee) out om (Suc n) (word_of_nat (length pre)) =
    tls_walk load (word_of_nat ee) out om n (word_of_nat (length (pre @ tls_ext (t0, t1, d))))"
proof -
  have acc: "skb_access load fr" using assms(2) by unfold_locales
  let ?h = "[t0, t1] @ len16 (length d)"
  have ld: "load (word_of_nat (length pre)) 4 = Some ?h"
    using skb_access.load_at [OF acc, of pre ?h "d @ rest" 4] assms(1,3) by (simp add: tls_ext_def)
  have "be16 (?h ! 2) (?h ! 3) = be16 (len16 (length d) ! 0) (len16 (length d) ! 1)"
    by (simp add: len16_def)
  then have l: "unat (be16 (?h ! 2) (?h ! 3)) = length d" using be16_len16 [OF assms(6)] by simp
  have "(word_of_nat (length pre) :: u32) + 4 + ucast (be16 (?h ! 2) (?h ! 3)) =
      word_of_nat (length pre + 4 + unat (be16 (?h ! 2) (?h ! 3)))" by simp
  also have "\<dots> = word_of_nat (length (pre @ tls_ext (t0, t1, d)))"
    unfolding l by (simp add: length_tls_ext)
  finally have pos: "(word_of_nat (length pre) :: u32) + 4 + ucast (be16 (?h ! 2) (?h ! 3)) =
      word_of_nat (length (pre @ tls_ext (t0, t1, d)))" .
  have p4: "(word_of_nat (length pre) :: u32) + 4 = word_of_nat (length pre + 4)" by simp
  have e4: "\<not> (word_of_nat ee :: u32) < word_of_nat (length pre) + 4"
    unfolding p4 using assms(4,5) by (subst u32_of_nat_less) (simp_all add: length_tls_ext)
  have "be16 (?h ! 0) (?h ! 1) \<noteq> 0" using assms(7) by (simp add: be16_zero)
  then show ?thesis
    unfolding tls_walk.simps Let_def ld option.case pos using e4 by (simp only: if_False)
qed

lemma tls_walk_hit:
  assumes "fr = pre @ tls_ext (0, 0, sni_data name) @ rest" and "load_holds load fr"
    and "length fr < 2 ^ 31" and "length (pre @ tls_ext (0, 0, sni_data name)) \<le> ee" and "ee < 2 ^ 31"
    and "0 < length name" and "length name < 65531" and "length out = 64"
  shows "tls_walk load (word_of_nat ee) out MAX_TLS_SNI (Suc n) (word_of_nat (length pre)) =
    Some (sni_shown name out)"
proof -
  have acc: "skb_access load fr" using assms(2) by unfold_locales
  let ?h = "[0, 0] @ len16 (length (sni_data name))"
  have ld: "load (word_of_nat (length pre)) 4 = Some ?h"
    using skb_access.load_at [OF acc, of pre ?h "sni_data name @ rest" 4] assms(1,3)
    by (simp add: tls_ext_def)
  have fr: "fr = (pre @ ?h) @ sni_data name @ rest" using assms(1) by (simp add: tls_ext_def)
  have p4: "(word_of_nat (length pre) :: u32) + 4 = word_of_nat (length (pre @ ?h))" by simp
  have e4: "\<not> (word_of_nat ee :: u32) < word_of_nat (length pre) + 4"
    unfolding p4 using assms(4,5) by (subst u32_of_nat_less) (simp_all add: length_tls_ext)
  have "sni_extension load (word_of_nat (length (pre @ ?h))) (word_of_nat ee) out MAX_TLS_SNI =
      Some (sni_shown name out)"
    using sni_extension_name [OF fr assms(2,3) _ assms(5,6) _ assms(8)] assms(4,7)
    by (simp add: length_tls_ext)
  moreover have "be16 (?h ! 0) (?h ! 1) = 0" by (simp add: be16_zero)
  ultimately show ?thesis
    unfolding tls_walk.simps Let_def ld option.case p4 using e4 [unfolded p4]
    by (simp only: if_False if_True simp_thms)
qed

lemma tls_walk_finds:
  assumes "fr = pre @ concat (map tls_ext others) @ tls_ext (0, 0, sni_data name) @ rest"
    and "load_holds load fr" and "length fr < 2 ^ 31"
    and "length (pre @ concat (map tls_ext others) @ tls_ext (0, 0, sni_data name)) \<le> ee"
    and "ee < 2 ^ 31"
    and "\<forall>(t0, t1, d) \<in> set others. (t0 \<noteq> 0 \<or> t1 \<noteq> 0) \<and> length d < 65536"
    and "0 < length name" and "length name < 65531" and "length out = 64" and "length others < n"
  shows "tls_walk load (word_of_nat ee) out MAX_TLS_SNI n (word_of_nat (length pre)) =
    Some (sni_shown name out)"
  using assms(1,4,6,10)
proof (induction others arbitrary: pre n)
  case Nil
  then obtain m where "n = Suc m" by (cases n) auto
  then show ?case
    using tls_walk_hit [of fr pre name rest load ee out m] Nil assms(2,3,5,7-9) by simp
next
  case (Cons x others)
  obtain t0 t1 d where x: "x = (t0, t1, d)" by (cases x)
  obtain m where n: "n = Suc m" using Cons.prems by (cases n) auto
  have fr: "fr = pre @ tls_ext (t0, t1, d) @
      (concat (map tls_ext others) @ tls_ext (0, 0, sni_data name) @ rest)"
    using Cons.prems(1) x by simp
  have "tls_walk load (word_of_nat ee) out MAX_TLS_SNI (Suc m) (word_of_nat (length pre)) =
      tls_walk load (word_of_nat ee) out MAX_TLS_SNI m (word_of_nat (length (pre @ tls_ext (t0, t1, d))))"
    using Cons.prems x by (intro tls_walk_skip [OF fr assms(2,3) _ assms(5)]) auto
  also have "\<dots> = Some (sni_shown name out)"
    using Cons.prems x n by (intro Cons.IH) auto
  finally show ?case using n by simp
qed

text \<open>From the record to the extensions.\<close>

lemma u32_add_len:
  fixes b :: "'a::len word"
  assumes "LENGTH('a) \<le> 32"
  shows "word_of_nat p + (k + ucast b) = (word_of_nat (p + unat k + unat b) :: u32)"
proof -
  have "word_of_nat (unat b) = (ucast b :: u32)" by simp
  then show ?thesis by (simp only: of_nat_add word_nat_cast_eq ac_simps)
qed

lemma tls_extensions_hello:
  assumes "fr = pre @ client_hello hh sid cs cm exts @ rest" and "load_holds load fr"
    and "length fr < 2 ^ 31" and "hello_head hh" and "length sid < 256" and "length cs < 65536"
    and "length cm < 256" and "length exts < 65536"
  shows "tls_extensions load (word_of_nat (length pre)) (word_of_nat (length fr)) =
    (let p = length fr - length rest - length exts
     in Some (word_of_nat p, word_of_nat (p + length exts)))"
proof -
  have acc: "skb_access load fr" using assms(2) by unfold_locales
  let ?s = "word_of_nat (length sid) :: u8" and ?m = "word_of_nat (length cm) :: u8"
  let ?p1 = "pre @ hh" and ?p2 = "pre @ hh @ [?s] @ sid"
  let ?p3 = "pre @ hh @ [?s] @ sid @ len16 (length cs) @ cs"
  let ?p4 = "pre @ hh @ [?s] @ sid @ len16 (length cs) @ cs @ [?m] @ cm"
  let ?p5 = "pre @ hh @ [?s] @ sid @ len16 (length cs) @ cs @ [?m] @ cm @ len16 (length exts)"
  let ?L = "word_of_nat (length fr) :: u32" and ?w = "\<lambda>p. word_of_nat (length p) :: u32"
  note fr = assms(1) [unfolded client_hello_def]
  have h: "length hh = 43" "take 6 hh ! 0 = 0x16" "take 6 hh ! 5 = 0x01"
    using assms(4) by (simp_all add: hello_head_def)
  have small: "length fr < 2 ^ 32" using assms(3) by simp
  have "fr = pre @ take 6 hh @ (drop 6 hh @ [?s] @ sid @ len16 (length cs) @ cs @ [?m] @ cm @
      len16 (length exts) @ exts @ rest)"
    using fr append_take_drop_id [of 6 hh] by (metis append.assoc)
  then have ld0: "load (?w pre) 6 = Some (take 6 hh)"
    by (rule skb_access.load_at [OF acc]) (use fr h small in simp_all)
  have ld1: "load (?w ?p1) 1 = Some [?s]"
    by (rule skb_access.load_at [OF acc, of _ _ "sid @ len16 (length cs) @ cs @ [?m] @ cm @
      len16 (length exts) @ exts @ rest"]) (use fr small in simp_all)
  have ld2: "load (?w ?p2) 2 = Some (len16 (length cs))"
    by (rule skb_access.load_at [OF acc, of _ _ "cs @ [?m] @ cm @ len16 (length exts) @ exts @ rest"])
      (use fr small in simp_all)
  have ld3: "load (?w ?p3) 1 = Some [?m]"
    by (rule skb_access.load_at [OF acc, of _ _ "cm @ len16 (length exts) @ exts @ rest"])
      (use fr small in simp_all)
  have ld4: "load (?w ?p4) 2 = Some (len16 (length exts))"
    by (rule skb_access.load_at [OF acc, of _ _ "exts @ rest"]) (use fr small in simp_all)
  have b: "unat ?s = length sid" "unat ?m = length cm"
    "unat (be16 (len16 (length cs) ! 0) (len16 (length cs) ! 1)) = length cs"
    "unat (be16 (len16 (length exts) ! 0) (len16 (length exts) ! 1)) = length exts"
    using assms(5,7) be16_len16 [OF assms(6)] be16_len16 [OF assms(8)]
    by (simp_all add: unat_of_nat take_bit_nat_eq_self)
  have p1: "?w pre + 5 + 4 + 2 + 32 = ?w ?p1" using h by simp
  have p2: "?w ?p1 + (1 + ucast ([?s] ! 0)) = ?w ?p2"
    using b(1) by (subst u32_add_len) simp_all
  have p3: "?w ?p2 + (2 + ucast (be16 (len16 (length cs) ! 0) (len16 (length cs) ! 1))) = ?w ?p3"
    using b(3) by (subst u32_add_len) (simp_all add: ac_simps)
  have p4: "?w ?p3 + (1 + ucast ([?m] ! 0)) = ?w ?p4"
    using b(2) by (subst u32_add_len) (simp_all add: ac_simps)
  have p5: "?w ?p4 + 2 = ?w ?p5" by simp
  have pe: "?w ?p5 + ucast (be16 (len16 (length exts) ! 0) (len16 (length exts) ! 1)) =
      ?w (?p5 @ exts)"
    using u32_add_len [of "length ?p5" 0 "be16 (len16 (length exts) ! 0) (len16 (length exts) ! 1)",
        unfolded b(4)] by simp
  have in_fr: "\<not> ?L < word_of_nat n" if "n \<le> length fr" for n
    using that small by (subst u32_of_nat_less) simp_all
  have guards: "\<not> ?L < ?w pre + 5" "\<not> ?L < ?w ?p1 + 1" "\<not> ?L < ?w ?p2 + 2" "\<not> ?L < ?w ?p3 + 1"
    "\<not> ?L < ?w ?p5" "\<not> ?L < ?w (?p5 @ exts)"
    using in_fr [of "length pre + 5"] in_fr [of "length ?p1 + 1"] in_fr [of "length ?p2 + 2"]
      in_fr [of "length ?p3 + 1"] in_fr [of "length ?p5"] in_fr [of "length (?p5 @ exts)"] fr h
    by (simp_all add: ac_simps)
  have end_pos: "length fr - length rest - length exts = length ?p5" using fr by simp
  show ?thesis
    by (simp only: tls_extensions_def Let_def end_pos ld0 ld1 ld2 ld3 ld4 bind.bind_lunit h p1 p2 p3 p4 p5
        pe guards if_False if_True simp_thms length_append [of ?p5 exts, symmetric])
qed

lemma cstr_stop: "cstr (a @ NUL # r) = cstr a"
  by (induction a) auto

lemma cstr_sni_shown:
  assumes "0 \<notin> set name" and "length out = 64"
  shows "cstr (sni_shown name out) = (if 15 \<le> length name then map chr_of (take 15 name)
    else map chr_of name @ cstr (slice (length name) (15 - length name) out))"
proof (cases "15 \<le> length name")
  case True
  have nz: "NUL \<notin> set (map chr_of (take 15 name))"
    using assms(1) by (auto simp: NUL_chr_of dest: in_set_takeD)
  have "sni_shown name out = map chr_of (take 15 name) @ NUL # drop 16 out"
  proof (cases "length name = 15")
    case True
    then have "drop 15 out = out ! 15 # drop 16 out"
      using assms(2) Cons_nth_drop_Suc [of 15 out] by simp
    then show ?thesis using True by (simp add: sni_shown_def list_update_append)
  next
    case False
    with True have "16 \<le> length name" by simp
    then have "take 16 name = take 15 name @ [name ! 15]"
      using take_Suc_conv_app_nth [of 15 name] by simp
    then show ?thesis using \<open>16 \<le> length name\<close> by (simp add: sni_shown_def list_update_append)
  qed
  then show ?thesis using nz True by (simp add: cstr_append_NUL)
next
  case False
  let ?n = "length name"
  have nz: "NUL \<notin> set (map chr_of name)" using assms(1) by (auto simp: NUL_chr_of)
  have "(drop ?n out)[15 - ?n := NUL] = slice ?n (15 - ?n) out @ NUL # drop 16 out"
    using False assms(2) by (simp add: slice_def upd_conv_take_nth_drop)
  then have "sni_shown name out = map chr_of name @ slice ?n (15 - ?n) out @ NUL # drop 16 out"
    using False by (simp add: sni_shown_def list_update_append)
  then show ?thesis using nz False by (simp add: cstr_append cstr_stop)
qed

text \<open>C14: the TLS hint shows the server name of a ClientHello: for every encoded hello inside the
  frame whose server name extension is among the first sixteen, the first 16 bytes of the name are
  stored and the string is cut to 15 characters; but a name shorter than that is not terminated: it
  is followed by whatever the scratch array held behind it.\<close>

theorem sni_hint_of_hello:
  assumes "fr = pre @ client_hello hh sid cs cm
      (concat (map tls_ext others) @ tls_ext (0, 0, sni_data name) @ exts2) @ rest"
    and "load_holds load fr" and "length fr < 2 ^ 31" and "hello_head hh"
    and "length sid < 256" and "length cs < 65536" and "length cm < 256"
    and "length (concat (map tls_ext others) @ tls_ext (0, 0, sni_data name) @ exts2) < 65536"
    and "\<forall>(t0, t1, d) \<in> set others. t0 \<noteq> 0 \<or> t1 \<noteq> 0" and "length others < 16"
    and "name \<noteq> []" and "0 \<notin> set name" and "length out = 64"
  shows "\<exists>out'. parse_tls_sni load (word_of_nat (length pre)) (word_of_nat (length fr)) out MAX_TLS_SNI =
      Some out' \<and>
    cstr out' = (if 15 \<le> length name then map chr_of (take 15 name)
                 else map chr_of name @ cstr (slice (length name) (15 - length name) out))"
proof -
  let ?exts = "concat (map tls_ext others) @ tls_ext (0, 0, sni_data name) @ exts2"
  let ?p = "length fr - length rest - length ?exts"
  obtain pre' where fr: "fr = pre' @ ?exts @ rest"
    using assms(1) by (auto simp: client_hello_def simp flip: append_assoc)
  then have p: "?p = length pre'" by simp
  have name: "length name < 65531"
    using assms(8) by (simp add: length_tls_ext sni_data_def)
  have others: "\<forall>(t0, t1, d) \<in> set others. (t0 \<noteq> 0 \<or> t1 \<noteq> 0) \<and> length d < 65536"
  proof clarify
    fix t0 t1 d assume x: "(t0, t1, d) \<in> set others"
    then have "length (tls_ext (t0, t1, d)) \<le> length (concat (map tls_ext others))"
      by (induction others) auto
    then show "(t0 \<noteq> 0 \<or> t1 \<noteq> 0) \<and> length d < 65536"
      using assms(8,9) x by (auto simp: length_tls_ext)
  qed
  have "tls_walk load (word_of_nat (?p + length ?exts)) out MAX_TLS_SNI 16 (word_of_nat ?p) =
      Some (sni_shown name out)"
    unfolding p
    using fr assms(3,10,11,13) name others
    by (intro tls_walk_finds [OF _ assms(2,3), of pre' others name "exts2 @ rest"]) auto
  moreover have "tls_extensions load (word_of_nat (length pre)) (word_of_nat (length fr)) =
      Some (word_of_nat ?p, word_of_nat (?p + length ?exts))"
    using tls_extensions_hello [OF assms(1-8)] by (simp only: Let_def)
  ultimately have "parse_tls_sni load (word_of_nat (length pre)) (word_of_nat (length fr)) out
      MAX_TLS_SNI = Some (sni_shown name out)"
    by (simp only: parse_tls_sni_def option.case prod.case)
  moreover have "cstr (sni_shown name out) = (if 15 \<le> length name then map chr_of (take 15 name)
                 else map chr_of name @ cstr (slice (length name) (15 - length name) out))"
    using assms(12,13) by (rule cstr_sni_shown)
  ultimately show ?thesis by blast
qed

text \<open>The effect on two connections that follow each other: the second name is shown with the tail
  of the first.\<close>

definition hello_frame :: "string \<Rightarrow> u8 list" where
  "hello_frame name = client_hello (0x16 # replicate 4 0 @ 0x01 # replicate 37 0) [] [0, 1] [0]
     (tls_ext (0, 0, sni_data (map byte_of name)))"

lemma sni_hint_of_hello_witness:
  "\<exists>a b. parse_tls_sni (frame_load (hello_frame ''mail.example.com'')) 0 77 (replicate 64 NUL)
       MAX_TLS_SNI = Some a \<and> cstr a = ''mail.example.co'' \<and>
     parse_tls_sni (frame_load (hello_frame ''t.co'')) 0 65 (a[0 := NUL]) MAX_TLS_SNI = Some b \<and>
     cstr b = ''t.co.example.co''"
proof -
  have len: "length (hello_frame s) = 61 + length s" for s
    by (simp add: hello_frame_def client_hello_def length_tls_ext sni_data_def)
  have hint: "\<exists>out'. parse_tls_sni (frame_load (hello_frame s)) 0 (word_of_nat (61 + length s)) out
      MAX_TLS_SNI = Some out' \<and>
    cstr out' = (if 15 \<le> length s then take 15 s else s @ cstr (slice (length s) (15 - length s) out))"
    if "s \<noteq> []" "length s < 1000" "NUL \<notin> set s" "length out = 64" for s out
  proof -
    let ?h = "0x16 # replicate 4 0 @ 0x01 # replicate 37 0 :: u8 list"
    have fr: "hello_frame s = [] @ client_hello ?h [] [0, 1] [0]
        (concat (map tls_ext []) @ tls_ext (0, 0, sni_data (map byte_of s)) @ []) @ []"
      by (simp add: hello_frame_def)
    have h: "hello_head ?h" by (simp add: hello_head_def nth_append)
    have z: "0 \<notin> set (map byte_of s)"
      using that(3) by (auto simp: image_iff) (metis byte_of_NUL chr_of_byte_of)
    show ?thesis
      using sni_hint_of_hello [OF fr frame_load_holds _ h, of out] that z len [of s]
      by (simp add: length_tls_ext sni_data_def take_map o_def split: if_splits)
  qed
  let ?m = "''mail.example.com''" and ?s = "''mail.example.co''"
  obtain a where a: "parse_tls_sni (frame_load (hello_frame ?m)) 0 77 (replicate 64 NUL) MAX_TLS_SNI = Some a"
    "cstr a = ?s"
    using hint [of ?m "replicate 64 NUL"] by auto
  have "sni_ok (Some a)"
    using parse_tls_sni_safe [of "replicate 64 NUL" "frame_load (hello_frame ?m)" 0 77 MAX_TLS_SNI] a(1)
    by simp
  then have l: "length a = 64" by (simp add: sni_ok_def)
  then obtain r where "a = ?s @ r" using a(2) by (metis cstr_def takeWhile_dropWhile_id)
  then have "slice 4 11 (a[0 := NUL]) = ''.example.co''" by (simp add: slice_def)
  then obtain b where "parse_tls_sni (frame_load (hello_frame ''t.co'')) 0 65 (a[0 := NUL]) MAX_TLS_SNI = Some b"
    "cstr b = ''t.co.example.co''"
    using hint [of "''t.co''" "a[0 := NUL]"] l by (auto simp: eval_nat_numeral)
  with a show ?thesis by blast
qed

end
