(* ===== verification/Pksniff_Path.thy ===== *)
theory Pksniff_Path
  imports Pksniff_Hints
begin

text \<open>
  The packet path of \<open>pksniff\<close> as a whole: no store outside an array, the invariant of the
  scratch record, the contents of a captured event, and the agreement of its header parser with
  that of \<open>pktrace\<close>.
\<close>

section \<open>Capture\<close>

lemma unat_chunked: "unat (c AND NOT 0xF :: u32) = unat c div 16 * 16"
proof -
  have "c AND NOT 0xF = push_bit 4 (drop_bit 4 c)"
  proof (rule bit_word_eqI)
    fix n assume "n < LENGTH(32)"
    moreover have "bit (0xF :: u32) n \<longleftrightarrow> n < 4" if "n < 32"
      using that bit_mask_iff [of 4 n, where ?'a = u32] by (simp add: mask_eq_exp_minus_1)
    ultimately show "bit (c AND NOT 0xF) n = bit (push_bit 4 (drop_bit 4 c)) n"
      by (auto simp: bit_simps)
  qed
  also have "unat \<dots> = unat c div 16 * 16"
  proof -
    have "unat c div 16 * 16 \<le> unat c" by simp
    then have "unat c div 16 * 16 < 4294967296" using unat_u32_lt [of c] by (rule order.strict_trans1)
    then show ?thesis
      by (simp add: push_bit_eq_mult drop_bit_eq_div unat_word_ariths unat_div_distrib)
  qed
  finally show ?thesis .
qed

text \<open>The captured length of a frame of \<open>n\<close> bytes.\<close>

definition chunked :: "nat \<Rightarrow> nat" where
  "chunked n = min 256 n div 16 * 16"

lemma chunked_bounds: "chunked n \<le> n" "chunked n \<le> 256" "16 dvd chunked n" "n \<le> 256 \<Longrightarrow> n < chunked n + 16"
proof -
  have "min 256 n div 16 * 16 \<le> min 256 n"
    using div_mult_mod_eq [of "min 256 n" 16] by linarith
  then show "chunked n \<le> n" "chunked n \<le> 256" by (simp_all add: chunked_def)
  show "16 dvd chunked n" by (simp add: chunked_def)
  show "n < chunked n + 16" if "n \<le> 256"
    using that div_mult_mod_eq [of n 16] mod_less_divisor [of 16 n] by (simp add: chunked_def)
qed

lemma capture_chunks_prefix:
  assumes "load_holds load fr" and "16 * k \<le> length fr" and "k \<le> 16" and "length p0 = 256"
    and "k \<le> j + n" and "j \<le> k"
  shows "capture_chunks load (word_of_nat (16 * k)) n (16 * j) (take (16 * j) fr @ drop (16 * j) p0) =
    Some (Some (take (16 * k) fr @ drop (16 * k) p0))"
  using assms(5,6)
proof (induction n arbitrary: j)
  case 0
  then show ?case by simp
next
  case (Suc n)
  have acc: "skb_access load fr" using assms(1) by unfold_locales
  show ?case
  proof (cases "j = k")
    case True
    then show ?thesis by simp
  next
    case False
    with Suc.prems have j: "j < k" by simp
    have pos: "unat (word_of_nat (16 * j) :: u32) = 16 * j"
      using j assms(3) by (intro unat_u32_of_nat) simp
    have "\<not> (word_of_nat (16 * k) :: u32) \<le> word_of_nat (16 * j)"
      using j assms(3) by (subst u32_of_nat_le) simp_all
    moreover have "load (word_of_nat (16 * j)) 16 = Some (slice (16 * j) 16 fr)"
      using skb_access.load_in [OF acc, of "word_of_nat (16 * j)" 16] pos j assms(2) by simp
    moreover have "arr_copy (take (16 * j) fr @ drop (16 * j) p0) (16 * j) (slice (16 * j) 16 fr) =
      Some (take (16 * Suc j) fr @ drop (16 * Suc j) p0)"
      using j assms(2-4) by (simp add: take_slice_step add.commute flip: append_assoc)
    ultimately show ?thesis
      using Suc.IH [of "Suc j"] Suc.prems(1) j
      by (simp del: of_nat_mult take_append drop_append append_assoc add: add.commute)
  qed
qed

text \<open>The capture never discards a record: the chunks it loads lie inside the frame.\<close>

lemma capture_bytes_frame:
  assumes "skb_holds s fr" and "reserve env 0 = Some re" and "length (pk_packet re) = 256"
  shows "\<exists>c. capture_bytes env s e = Some [e\<lparr>pk_reserved := [0, 0], pk_cap_len := c,
      pk_packet := take (chunked (length fr)) fr @ drop (chunked (length fr)) (pk_packet re)\<rparr>] \<and>
    unat c = chunked (length fr)"
proof -
  have len: "unat (skb_len s) = length fr" using assms(1) by (simp add: skb_holds_def)
  define c where "c = (if word_of_nat PK_MAX_CAPTURE_BYTES < skb_len s
      then word_of_nat PK_MAX_CAPTURE_BYTES else skb_len s) AND NOT 0xF"
  have "unat c = chunked (length fr)"
    using len unfolding c_def unat_chunked
    by (simp add: chunked_def PK_MAX_CAPTURE_BYTES_def word_less_nat_alt min_def)
  then have c: "unat c = 16 * k" "chunked (length fr) = 16 * k" if "k = min 256 (length fr) div 16" for k
    by (simp_all add: chunked_def that)
  define k where "k = min 256 (length fr) div 16"
  note c = c [OF k_def]
  have cw: "c = word_of_nat (16 * k)" unfolding c(1) [symmetric] by simp
  have k: "16 * k \<le> length fr" "k \<le> 16" by (auto simp: k_def min_def)
  have "capture_chunks (skb_load s) c 16 0 (pk_packet re) =
      Some (Some (take (16 * k) fr @ drop (16 * k) (pk_packet re)))"
    using capture_chunks_prefix [of "skb_load s" fr k "pk_packet re" 0 16] assms k
    unfolding cw by (simp add: skb_holds_def)
  then have "capture_bytes env s e = Some [e\<lparr>pk_reserved := [0, 0], pk_cap_len := c,
      pk_packet := take (16 * k) fr @ drop (16 * k) (pk_packet re)\<rparr>]"
    unfolding capture_bytes_def assms(2) option.case Let_def c_def [symmetric]
    by (simp only: option.case option.map)
  then show ?thesis using c by auto
qed

section \<open>Hints and their strings\<close>

text \<open>Every string array of the record is terminated.\<close>

definition strings_ok :: "pk_event \<Rightarrow> bool" where
  "strings_ok e \<longleftrightarrow> pk_wf e \<and> NUL \<in> set (take 41 (pk_dns_name e)) \<and> NUL \<in> set (pk_http_info e) \<and>
     NUL \<in> set (take 16 (pk_tls_sni e)) \<and> pk_app_tag e \<le> 4"

text \<open>What the hints may change.\<close>

definition hint_update :: "pk_event \<Rightarrow> pk_event \<Rightarrow> bool" where
  "hint_update e e' \<longleftrightarrow> e' = e\<lparr>pk_app_tag := pk_app_tag e', pk_dns_name := pk_dns_name e',
     pk_http_info := pk_http_info e', pk_tls_sni := pk_tls_sni e'\<rparr>"

lemma hint_update_fields:
  assumes "hint_update e e'"
  shows "pk_ktime_ns e' = pk_ktime_ns e"
    "pk_src_ip e' = pk_src_ip e"
    "pk_dst_ip e' = pk_dst_ip e"
    "pk_ip_tot_len e' = pk_ip_tot_len e"
    "pk_ttl e' = pk_ttl e"
    "pk_ip_proto e' = pk_ip_proto e"
    "pk_ip_flags e' = pk_ip_flags e"
    "pk_src_port e' = pk_src_port e"
    "pk_dst_port e' = pk_dst_port e"
    "pk_tcp_flags e' = pk_tcp_flags e"
    "pk_l4_off e' = pk_l4_off e"
    "pk_payload_off e' = pk_payload_off e"
    "pk_payload_len e' = pk_payload_len e"
    "pk_packet_len e' = pk_packet_len e"
    "pk_direction e' = pk_direction e"
proof -
  have "f e' = f (e\<lparr>pk_app_tag := pk_app_tag e', pk_dns_name := pk_dns_name e',
      pk_http_info := pk_http_info e', pk_tls_sni := pk_tls_sni e'\<rparr>)" for f :: "pk_event \<Rightarrow> 'z"
    using assms unfolding hint_update_def by (rule arg_cong)
  note u = this
  show "pk_ktime_ns e' = pk_ktime_ns e"
    "pk_src_ip e' = pk_src_ip e"
    "pk_dst_ip e' = pk_dst_ip e"
    "pk_ip_tot_len e' = pk_ip_tot_len e"
    "pk_ttl e' = pk_ttl e"
    "pk_ip_proto e' = pk_ip_proto e"
    "pk_ip_flags e' = pk_ip_flags e"
    "pk_src_port e' = pk_src_port e"
    "pk_dst_port e' = pk_dst_port e"
    "pk_tcp_flags e' = pk_tcp_flags e"
    "pk_l4_off e' = pk_l4_off e"
    "pk_payload_off e' = pk_payload_off e"
    "pk_payload_len e' = pk_payload_len e"
    "pk_packet_len e' = pk_packet_len e"
    "pk_direction e' = pk_direction e"
    by (subst u, simp)+
qed

lemma pk_clear_strings: "pk_wf e \<Longrightarrow> strings_ok (pk_clear env dir e)"
  by (cases "pk_dns_name e"; cases "pk_http_info e"; cases "pk_tls_sni e")
    (auto simp: strings_ok_def pk_clear_def pk_wf_def app_tags)

lemma http_hint_ok:
  assumes "skb_holds s fr" and "strings_ok e"
  shows "\<exists>e'. http_hint s po e = Some e' \<and> strings_ok e' \<and> hint_update e e'"
proof -
  have "length (pk_http_info e) = 48" using assms(2) by (simp add: strings_ok_def pk_wf_def)
  then show ?thesis
    using assms parse_http_info_exact [OF assms(1), of "pk_http_info e" po]
    by (auto simp: http_hint_def strings_ok_def hint_update_def pk_wf_def app_tags)
qed

lemma pk_hints_ok:
  assumes "skb_holds s fr" and "strings_ok e"
  shows "\<exists>e'. pk_hints s dir proto sp dp po e = Some e' \<and> strings_ok e' \<and> hint_update e e'"
proof -
  have len: "length (pk_dns_name e) = 64" "length (pk_tls_sni e) = 64"
    "NUL \<in> set (take 16 (pk_tls_sni e))"
    using assms(2) by (simp_all add: strings_ok_def pk_wf_def)
  have same: "strings_ok (e\<lparr>pk_app_tag := t\<rparr>) \<and> hint_update e (e\<lparr>pk_app_tag := t\<rparr>)" if "t \<le> 4" for t
    using assms(2) that by (simp add: strings_ok_def hint_update_def pk_wf_def)
  have e: "hint_update e e" by (simp add: hint_update_def)
  obtain d where d: "parse_dns_name (skb_load s) (ucast po) (skb_len s) (pk_dns_name e) MAX_DNS_NAME =
      Some d" "length d = 64" "NUL \<in> set (take 41 d)"
    using parse_dns_name_safe [OF len(1)] by blast
  obtain t where t: "parse_tls_sni (skb_load s) (ucast po) (skb_len s) (pk_tls_sni e) MAX_TLS_SNI =
      Some t" "length t = 64" "NUL \<in> set (take 16 t)"
    using parse_tls_sni_safe [OF len(2,3), of "skb_load s" "ucast po" "skb_len s" MAX_TLS_SNI]
    by (auto simp: sni_ok_def)
  show ?thesis
    using assms(2) same d t http_hint_ok [OF assms] e
    by (auto simp: pk_hints_def Let_def strings_ok_def hint_update_def pk_wf_def app_tags)
qed

section \<open>One invocation\<close>

text \<open>The record the parser has filled when it reaches \<open>capture_bytes\<close>, or \<open>None\<close> when it
  returns before.\<close>

definition pk_headers :: "skb \<Rightarrow> (u16 \<times> u16 \<times> u16 \<times> u16 \<times> u8) option" where
  "pk_headers s =
     (let d = skb_lin s
      in if length d < ETH_HLEN \<or> eth_proto d \<noteq> ETH_P_IP then None
         else Option.bind (pk_ip_hdr d) (\<lambda>h. map_option (Pair h) (pk_l4 d h)))"

definition is_arp :: "skb \<Rightarrow> bool" where
  "is_arp s \<longleftrightarrow> ETH_HLEN \<le> length (skb_lin s) \<and> eth_proto (skb_lin s) = ETH_P_ARP"

lemma process_packet_cases:
  assumes "m 0 = Some e0"
  shows "process_packet env s dir m =
    (if length (skb_lin s) < ETH_HLEN then Some (m, [])
     else let e = pk_clear env dir e0 in
       if is_arp s then map_option (Pair (m(0 \<mapsto> pk_arp_fields s e))) (capture_bytes env s (pk_arp_fields s e))
       else case pk_headers s of
              None \<Rightarrow> Some (m(0 \<mapsto> e), [])
            | Some (h, sp, dp, po, fl) \<Rightarrow>
                Option.bind
                  (pk_hints s dir (ip_protocol (skb_lin s)) sp dp po (pk_ip_fields s h sp dp po fl e))
                  (\<lambda>e. map_option (Pair (m(0 \<mapsto> e))) (capture_bytes env s e)))"
  using assms
  by (auto simp: process_packet_def pk_headers_def is_arp_def Let_def ETH_P_IP_def ETH_P_ARP_def
      split: option.split prod.split bind_split)

lemma process_packet_ok:
  assumes "skb_holds s fr" and "m 0 = Some e0" and "pk_wf e0"
  shows "\<exists>m' e'. process_packet env s dir m =
      map_option (Pair m') (if is_arp s \<or> pk_headers s \<noteq> None then capture_bytes env s e' else Some []) \<and>
    (\<exists>e1. m' 0 = Some e1 \<and> pk_wf e1) \<and> strings_ok e' \<and>
    (is_arp s \<or> pk_headers s \<noteq> None \<longrightarrow> pk_packet_len e' = skb_len s \<and> pk_direction e' = dir \<and>
       pk_ktime_ns e' = ktime_ns env 0) \<and>
    (\<forall>h sp dp po fl. pk_headers s = Some (h, sp, dp, po, fl) \<longrightarrow>
       hint_update (pk_ip_fields s h sp dp po fl (pk_clear env dir e0)) e')"
proof -
  let ?e = "pk_clear env dir e0"
  have e: "strings_ok ?e" using pk_clear_strings [OF assms(3)] .
  then have wf: "pk_wf ?e" by (simp add: strings_ok_def)
  show ?thesis
  proof (cases "is_arp s")
    case True
    then have no: "pk_headers s = None"
      by (simp add: is_arp_def pk_headers_def ETH_P_IP_def ETH_P_ARP_def)
    have "strings_ok (pk_arp_fields s ?e)"
      using e by (simp add: strings_ok_def pk_wf_def pk_arp_fields_def)
    moreover have "pk_direction (pk_arp_fields s ?e) = dir" "pk_ktime_ns (pk_arp_fields s ?e) = ktime_ns env 0"
      "pk_packet_len (pk_arp_fields s ?e) = skb_len s"
      by (simp_all add: pk_arp_fields_def pk_clear_def)
    ultimately show ?thesis
      using True no process_packet_cases [of m e0 env s dir, OF assms(2)]
      by (intro exI [of _ "m(0 \<mapsto> pk_arp_fields s ?e)"] exI [of _ "pk_arp_fields s ?e"])
        (auto simp: Let_def is_arp_def strings_ok_def)
  next
    case False
    show ?thesis
    proof (cases "pk_headers s")
      case None
      then show ?thesis
        using False e wf assms(2,3) process_packet_cases [of m e0 env s dir, OF assms(2)]
        by (intro exI [of _ "if length (skb_lin s) < ETH_HLEN then m else m(0 \<mapsto> ?e)"] exI [of _ ?e])
          (auto simp: Let_def)
    next
      case (Some x)
      obtain h sp dp po fl where x: "x = (h, sp, dp, po, fl)" by (cases x)
      have len: "\<not> length (skb_lin s) < ETH_HLEN" using Some by (auto simp: pk_headers_def Let_def)
      let ?f = "pk_ip_fields s h sp dp po fl ?e"
      have "strings_ok ?f" using e by (simp add: strings_ok_def pk_wf_def pk_ip_fields_def Let_def)
      then obtain e' where e': "pk_hints s dir (ip_protocol (skb_lin s)) sp dp po ?f = Some e'"
        "strings_ok e'" "hint_update ?f e'"
        using pk_hints_ok [OF assms(1)] by blast
      have f: "pk_packet_len ?f = skb_len s" "pk_direction ?f = dir" "pk_ktime_ns ?f = ktime_ns env 0"
        by (simp_all add: pk_ip_fields_def pk_clear_def Let_def)
      have "pk_packet_len e' = pk_packet_len ?f" "pk_direction e' = pk_direction ?f"
        "pk_ktime_ns e' = pk_ktime_ns ?f"
        using hint_update_fields [OF e'(3)] by simp_all
      then show ?thesis
        using False Some x len e' f process_packet_cases [of m e0 env s dir, OF assms(2)]
        by (intro exI [of _ "m(0 \<mapsto> e')"] exI [of _ e']) (auto simp: Let_def strings_ok_def)
    qed
  qed
qed

section \<open>Runs\<close>

text \<open>A sequence of packets on one CPU, each with its environment and direction. The checked run
  is \<open>None\<close> as soon as one of them stores outside an array.\<close>

type_synonym pk_input = "pk_event probe_env \<times> skb \<times> u8"

fun pk_run :: "pk_input list \<Rightarrow> pk_state \<Rightarrow> (pk_state \<times> pk_event list) option" where
  "pk_run [] m = Some (m, [])"
| "pk_run ((env, s, dir) # xs) m =
     Option.bind (process_packet env s dir m) (\<lambda>(m, es).
       map_option (\<lambda>(m, es'). (m, es @ es')) (pk_run xs m))"

definition pk_step :: "pk_input \<Rightarrow> pk_state \<Rightarrow> pk_state \<times> pk_event list" where
  "pk_step x m = (case x of (env, s, dir) \<Rightarrow>
     (case process_packet env s dir m of None \<Rightarrow> (m, []) | Some r \<Rightarrow> r))"

text \<open>What the kernel promises of an invocation: the buffer holds a frame and a reserved record has
  the size of the C type.\<close>

definition pk_admissible :: "pk_input \<Rightarrow> bool" where
  "pk_admissible x \<longleftrightarrow> (case x of (env, s, dir) \<Rightarrow>
     (\<exists>fr. skb_holds s fr) \<and> (\<forall>re. reserve env 0 = Some re \<longrightarrow> pk_wf re))"

definition pk_inv :: "pk_state \<Rightarrow> bool" where
  "pk_inv m \<longleftrightarrow> (case m 0 of None \<Rightarrow> False | Some e \<Rightarrow> pk_wf e)"

definition pk_good :: "pk_event \<Rightarrow> bool" where
  "pk_good e \<longleftrightarrow> strings_ok e \<and> 16 dvd unat (pk_cap_len e) \<and> pk_cap_len e \<le> 256 \<and>
     pk_cap_len e \<le> pk_packet_len e"

lemma capture_bytes_None: "reserve env 0 = None \<Longrightarrow> capture_bytes env s e = Some []"
  by (simp add: capture_bytes_def)

lemma pk_step_ok:
  assumes "pk_inv m" and "pk_admissible (env, s, dir)"
  shows "\<exists>m' es. process_packet env s dir m = Some (m', es) \<and> pk_inv m' \<and> (\<forall>e \<in> set es. pk_good e)"
proof -
  obtain e0 where e0: "m 0 = Some e0" "pk_wf e0"
    using assms(1) by (auto simp: pk_inv_def split: option.splits)
  obtain fr where fr: "skb_holds s fr" and re: "\<And>re. reserve env 0 = Some re \<Longrightarrow> pk_wf re"
    using assms(2) by (auto simp: pk_admissible_def)
  have len: "unat (skb_len s) = length fr" using fr by (simp add: skb_holds_def)
  obtain m' e' e1 where r: "process_packet env s dir m =
      map_option (Pair m') (if is_arp s \<or> pk_headers s \<noteq> None then capture_bytes env s e' else Some [])"
    "m' 0 = Some e1" "pk_wf e1" "strings_ok e'"
    "is_arp s \<or> pk_headers s \<noteq> None \<longrightarrow> pk_packet_len e' = skb_len s"
    using process_packet_ok [where m = m, OF fr e0, of env dir] by blast
  have "\<exists>es. capture_bytes env s e' = Some es \<and> (\<forall>e \<in> set es. pk_good e)"
    if k: "is_arp s \<or> pk_headers s \<noteq> None"
  proof (cases "reserve env 0")
    case None
    then show ?thesis by (simp add: capture_bytes_None)
  next
    case re1: (Some re)
    then have "length (pk_packet re) = 256" using re by (simp add: pk_wf_def)
    from capture_bytes_frame [OF fr re1 this, of e'] obtain c where
      "capture_bytes env s e' = Some [e'\<lparr>pk_reserved := [0, 0], pk_cap_len := c,
        pk_packet := take (chunked (length fr)) fr @ drop (chunked (length fr)) (pk_packet re)\<rparr>]"
      "unat c = chunked (length fr)"
      by blast
    then show ?thesis
      using r(4,5) k re [OF re1] chunked_bounds [of "length fr"] len
      by (auto simp: pk_good_def strings_ok_def pk_wf_def word_le_nat_alt)
  qed
  with r show ?thesis by (auto simp: pk_inv_def)
qed

interpretation pk: probe_guarantee pk_step pk_admissible pk_inv pk_good
proof
  fix x m assume "pk_inv m" "pk_admissible x"
  moreover obtain env s dir where "x = (env, s, dir)" by (cases x)
  ultimately show "pk_inv (fst (pk_step x m))" using pk_step_ok by (fastforce simp: pk_step_def)
next
  fix x m e assume "pk_inv m" "pk_admissible x" "e \<in> set (snd (pk_step x m))"
  moreover obtain env s dir where "x = (env, s, dir)" by (cases x)
  ultimately show "pk_good e" using pk_step_ok by (fastforce simp: pk_step_def)
qed

lemma pk_run_eq:
  "pk_inv m \<Longrightarrow> \<forall>x \<in> set xs. pk_admissible x \<Longrightarrow> pk_run xs m = Some (run_probe pk_step m xs)"
proof (induction xs arbitrary: m)
  case Nil
  then show ?case by (simp add: run_probe.simps)
next
  case (Cons x xs)
  obtain env s dir where x: "x = (env, s, dir)" by (cases x)
  obtain m' es where "process_packet env s dir m = Some (m', es)" "pk_inv m'"
    using pk_step_ok [of m env s dir] Cons.prems x by auto
  then show ?case
    using Cons x by (simp add: run_probe.simps pk_step_def case_prod_unfold Let_def)
qed

text \<open>C1: no packet and no sequence of packets makes \<open>pksniff\<close> store outside its arrays, the string
  arrays of the scratch record and the packet array of the reserved record alike: every such store is checked in the
  model, and the run always has a result. The scratch record keeps its shape, and every event has the
  array sizes of the C type, terminated strings, a known tag and a captured length that is a multiple
  of 16, at most 256 and at most the length of the packet.\<close>

theorem pk_memory_safe:
  assumes "m 0 = Some e0" and "pk_wf e0" and "\<forall>x \<in> set xs. pk_admissible x"
  shows "\<exists>m' es. pk_run xs m = Some (m', es) \<and> (\<exists>e1. m' 0 = Some e1 \<and> pk_wf e1) \<and>
    (\<forall>e \<in> set es. length (pk_packet e) = 256 \<and> pk_wf e \<and>
       NUL \<in> set (pk_dns_name e) \<and> NUL \<in> set (pk_http_info e) \<and> NUL \<in> set (pk_tls_sni e) \<and>
       pk_app_tag e \<le> 4 \<and> 16 dvd unat (pk_cap_len e) \<and> pk_cap_len e \<le> 256 \<and>
       pk_cap_len e \<le> pk_packet_len e)"
proof -
  have i: "pk_inv m" using assms(1,2) by (simp add: pk_inv_def)
  have "pk_inv (fst (run_probe pk_step m xs))" using pk.run_inv [OF i assms(3)] .
  moreover have "pk_good e" if "e \<in> set (snd (run_probe pk_step m xs))" for e
    using pk.run_good [OF i assms(3) that] .
  moreover have "pk_run xs m = Some (fst (run_probe pk_step m xs), snd (run_probe pk_step m xs))"
    using pk_run_eq [OF i assms(3)] by simp
  ultimately show ?thesis
    by (fastforce simp: pk_inv_def pk_good_def strings_ok_def pk_wf_def split: option.splits dest: in_set_takeD)
qed

definition pk_env :: "pk_event probe_env" where
  "pk_env = \<lparr>ktime_ns = (\<lambda>_. 5), pid_tgid = 0, uid_gid = 0, cur_comm = [],
     reserve = (\<lambda>_. Some pk_blank), map_ok = (\<lambda>_. True)\<rparr>"

lemma pk_env_admissible [simp]: "length fr < 2 ^ 32 \<Longrightarrow> pk_admissible (pk_env, frame_skb fr k, dir)"
  using frame_skb_holds [of fr k] by (auto simp: pk_admissible_def pk_env_def)

lemma pk_memory_safe_witness:
  "\<exists>m' es. pk_run [(pk_env, frame_skb sample_udp_frame 60, DIR_EGRESS),
      (pk_env, frame_skb (replicate 3 0) 3, DIR_INGRESS)] (array_map1 pk_blank) = Some (m', es)"
  using pk_memory_safe [of "array_map1 pk_blank" pk_blank "[(pk_env, frame_skb sample_udp_frame 60, DIR_EGRESS),
      (pk_env, frame_skb (replicate 3 0) 3, DIR_INGRESS)]"]
  by (auto simp: array_map1_def length_sample_udp_frame)

text \<open>C8: what \<open>pksniff\<close> captures: one event for every ARP packet and every IPv4 packet with
  complete headers, none otherwise; it holds the true length of the frame and its first
  \<open>min 256 len\<close> bytes rounded down to a multiple of 16, never other bytes of the frame and never
  fewer, and the bytes behind them are those of the reserved record.\<close>

theorem pk_capture_exact:
  assumes "skb_holds s fr" and "m 0 = Some e0" and "pk_wf e0" and "reserve env 0 = Some re"
    and "pk_wf re"
  shows "\<exists>m' e. process_packet env s dir m =
      Some (m', if is_arp s \<or> pk_headers s \<noteq> None then [e] else []) \<and>
    (is_arp s \<or> pk_headers s \<noteq> None \<longrightarrow>
       unat (pk_cap_len e) = min 256 (length fr) div 16 * 16 \<and>
       take (unat (pk_cap_len e)) (pk_packet e) = take (unat (pk_cap_len e)) fr \<and>
       drop (unat (pk_cap_len e)) (pk_packet e) = drop (unat (pk_cap_len e)) (pk_packet re) \<and>
       unat (pk_packet_len e) = length fr \<and> pk_direction e = dir \<and>
       pk_ktime_ns e = ktime_ns env 0)"
proof -
  have len: "unat (skb_len s) = length fr" using assms(1) by (simp add: skb_holds_def)
  obtain m' e' where r: "process_packet env s dir m =
      map_option (Pair m') (if is_arp s \<or> pk_headers s \<noteq> None then capture_bytes env s e' else Some [])"
    "is_arp s \<or> pk_headers s \<noteq> None \<longrightarrow> pk_packet_len e' = skb_len s \<and> pk_direction e' = dir \<and>
       pk_ktime_ns e' = ktime_ns env 0"
    using process_packet_ok [where m = m, OF assms(1-3), of env dir] by blast
  have "length (pk_packet re) = 256" using assms(5) by (simp add: pk_wf_def)
  from capture_bytes_frame [OF assms(1,4) this, of e'] obtain c where
    c: "capture_bytes env s e' = Some [e'\<lparr>pk_reserved := [0, 0], pk_cap_len := c,
        pk_packet := take (chunked (length fr)) fr @ drop (chunked (length fr)) (pk_packet re)\<rparr>]"
      "unat c = chunked (length fr)"
    by blast
  let ?e = "e'\<lparr>pk_reserved := [0, 0], pk_cap_len := c,
        pk_packet := take (chunked (length fr)) fr @ drop (chunked (length fr)) (pk_packet re)\<rparr>"
  show ?thesis
    using r c len chunked_bounds(1) [of "length fr"]
    by (intro exI [of _ m'] exI [of _ ?e]) (simp add: min_absorb2 flip: chunked_def)
qed

definition arp_frame :: "u8 list" where
  "arp_frame = replicate 12 1 @ [0x08, 0x06] @ replicate 28 2"

lemma pk_capture_exact_witness:
  "\<exists>m' e. process_packet pk_env (frame_skb arp_frame 42) DIR_INGRESS (array_map1 pk_blank) = Some (m', [e]) \<and>
     unat (pk_cap_len e) = 32 \<and> take 32 (pk_packet e) = take 32 arp_frame \<and> unat (pk_packet_len e) = 42"
proof -
  have "length arp_frame = 42" by (simp add: arp_frame_def)
  moreover have "is_arp (frame_skb arp_frame 42)"
    by (simp add: is_arp_def frame_skb_def arp_frame_def eth_proto_def be16_def ETH_P_ARP_def nth_append)
  ultimately show ?thesis
    using pk_capture_exact [where m = "array_map1 pk_blank", OF frame_skb_holds, of arp_frame pk_blank
        pk_env pk_blank 42 DIR_INGRESS]
    by (auto simp: array_map1_def pk_env_def)
qed

section \<open>Header fields\<close>

text \<open>The parser agrees with the one of \<open>pktrace\<close>.\<close>

lemma pk_l4_pt_l4:
  "pk_l4 d h = map_option (\<lambda>(sp, dp, po). (sp, dp, po,
     if ip_protocol d = IPPROTO_TCP then pack_flags (tcp_flag_byte d (unat (14 + h))) else 0)) (pt_l4 d h)"
  by (auto simp: pk_l4_def pt_l4_def Let_def)

lemma pk_headers_pt:
  "pk_headers s = Option.bind (pt_ip_hdr (skb_lin s)) (\<lambda>h. map_option (Pair h) (pk_l4 (skb_lin s) h))"
  by (auto simp: pk_headers_def pt_ip_hdr_def pk_ip_hdr_def Let_def)

text \<open>The six flag bits.\<close>

lemma pack_flags_mask: "pack_flags b = b AND 0x3F"
proof -
  have f: "(if bit b k then x OR m else x) = x OR (b AND m)" if "m = 2 ^ k" for x m :: u8 and k
    unfolding that by (auto intro!: bit_word_eqI simp: bit_or_iff bit_and_iff bit_exp_iff)
  have "pack_flags b = 0 OR (b AND 1) OR (b AND 2) OR (b AND 4) OR (b AND 8) OR (b AND 16) OR (b AND 32)"
    unfolding pack_flags_def Let_def
    by (subst f [of _ 0] f [of _ 1] f [of _ 2] f [of _ 3] f [of _ 4] f [of _ 5], simp)+
      (simp only: or.assoc)
  then have "pack_flags b = (b AND 1) OR (b AND 2) OR (b AND 4) OR (b AND 8) OR (b AND 16) OR (b AND 32)"
    by (simp only: or.left_neutral)
  also have "\<dots> = b AND (1 OR 2 OR 4 OR 8 OR 16 OR 32)"
    by (simp only: bit.conj_disj_distrib)
  also have "(1 OR 2 OR 4 OR 8 OR 16 OR 32 :: u8) = 0x3F" by simp
  finally show ?thesis .
qed

text \<open>C20: \<open>pksniff\<close> and \<open>pktrace\<close>, which each bring their own copy of the parser, read the same
  headers: whenever both report the same IPv4 packet their events agree on addresses, protocol,
  ports, offsets, payload length and packet length, whatever the hints did.\<close>

theorem pk_agrees_with_pktrace:
  assumes "skb_holds s fr" and "m 0 = Some e0" and "pk_wf e0"
    and "process_packet env s dir m = Some (m', es)" and "e \<in> set es"
    and "p \<in> set (pktrace_fn env' s)"
  shows "pk_src_ip e = pt_src_ip p \<and> pk_dst_ip e = pt_dst_ip p \<and> pk_ip_proto e = pt_protocol p \<and>
    pk_src_port e = pt_src_port p \<and> pk_dst_port e = pt_dst_port p \<and> pk_l4_off e = pt_l4_off p \<and>
    pk_payload_off e = pt_payload_off p \<and> pk_payload_len e = pt_payload_len p \<and>
    pk_packet_len e = pt_packet_len p"
proof -
  obtain ihl sp dp po where p: "pt_ip_hdr (skb_lin s) = Some ihl" "pt_l4 (skb_lin s) ihl = Some (sp, dp, po)"
    "pt_packet_len p = skb_len s" "pt_src_ip p = ip_saddr (skb_lin s)"
    "pt_dst_ip p = ip_daddr (skb_lin s)" "pt_src_port p = sp" "pt_dst_port p = dp"
    "pt_l4_off p = 14 + ihl" "pt_payload_off p = po" "pt_protocol p = ip_protocol (skb_lin s)"
    "pt_payload_len p = payload_len_of (skb_len s) po"
    using pktrace_fn_eventE [OF assms(6,1)] by metis
  then obtain fl where h: "pk_headers s = Some (ihl, sp, dp, po, fl)"
    by (simp add: pk_headers_pt pk_l4_pt_l4)
  obtain m1 e' where "process_packet env s dir m = map_option (Pair m1) (capture_bytes env s e')"
    and u: "hint_update (pk_ip_fields s ihl sp dp po fl (pk_clear env dir e0)) e'"
    using process_packet_ok [where m = m, OF assms(1-3), of env dir] h by auto
  then have "map_option (Pair m1) (capture_bytes env s e') = Some (m', es)" using assms(4) by simp
  then have r: "capture_bytes env s e' = Some es" by auto
  then obtain c bs where "e = e'\<lparr>pk_reserved := [0, 0], pk_cap_len := c, pk_packet := bs\<rparr>"
    using assms(5) by (auto simp: capture_bytes_def Let_def split: option.splits)
  then show ?thesis
    using p hint_update_fields [OF u] by (simp add: pk_ip_fields_def Let_def)
qed

lemma sample_pk_headers:
  "pk_headers (frame_skb sample_udp_frame 50) = Some (20, be16 0xC0 0, 53, 42, 0)"
  by code_simp

lemma pk_agrees_with_pktrace_witness:
  "\<exists>m' e p. process_packet pk_env (frame_skb sample_udp_frame 50) DIR_EGRESS (array_map1 pk_blank) = Some (m', [e]) \<and>
     pktrace_fn pt_env (frame_skb sample_udp_frame 50) = [p] \<and> pk_dst_port e = pt_dst_port p \<and>
     pk_payload_len e = pt_payload_len p"
proof -
  let ?s = "frame_skb sample_udp_frame 50"
  have fr: "skb_holds ?s sample_udp_frame"
    by (rule frame_skb_holds) (simp add: length_sample_udp_frame)
  have m: "array_map1 pk_blank 0 = Some pk_blank" by (simp add: array_map1_def)
  obtain m' e' where r: "process_packet pk_env ?s DIR_EGRESS (array_map1 pk_blank) =
      map_option (Pair m') (capture_bytes pk_env ?s e')"
    using process_packet_ok [where m = "array_map1 pk_blank", OF fr m pk_blank_wf, of pk_env DIR_EGRESS]
      sample_pk_headers by auto
  obtain e where e: "capture_bytes pk_env ?s e' = Some [e]"
    using capture_bytes_frame [OF fr, of pk_env pk_blank e'] by (auto simp: pk_env_def pk_blank_def)
  have "pktrace_fn pt_env ?s \<noteq> []" by code_simp
  then obtain p where p: "p \<in> set (pktrace_fn pt_env ?s)" by (cases "pktrace_fn pt_env ?s") auto
  then have p1: "pktrace_fn pt_env ?s = [p]" using pktrace_fn_eventE [OF p fr] by metis
  show ?thesis
    using pk_agrees_with_pktrace [OF fr, of "array_map1 pk_blank" pk_blank pk_env DIR_EGRESS m' "[e]" e p pt_env]
      r e p p1 m by simp
qed

lemma ip_flag_bits: "(ucast (drop_bit 12 (be16 f0 f1) AND 0x07) :: u8) = drop_bit 4 f0 AND 0x07"
proof (rule bit_word_eqI)
  fix n assume n: "n < LENGTH(8)"
  have b: "bit (0x07 :: u8) n \<longleftrightarrow> n < 3" "bit (0x07 :: u16) n \<longleftrightarrow> n < 3"
    using n bit_mask_iff [of 3 n, where ?'a = u8] bit_mask_iff [of 3 n, where ?'a = u16]
    by (auto simp: mask_eq_exp_minus_1)
  show "bit (ucast (drop_bit 12 (be16 f0 f1) AND 0x07) :: u8) n = bit (drop_bit 4 f0 AND 0x07) n"
    using n b by (auto simp: be16_def bit_simps dest: bit_imp_le_length)
qed

text \<open>C29: the header fields of a TCP packet: for every frame built from Ethernet, IPv4 and TCP headers
  with any options whose headers lie in the linear part, \<open>pksniff\<close> computes the length, time to
  live and ports of the packet, the six TCP flag bits, the payload offset, and as IP flags the bits
  4 to 6 of the fragment word's first byte: DF, MF and the highest bit of the fragment offset.\<close>

theorem pk_parses_tcp:
  assumes "ip4_wf h" and "h_proto h = IPPROTO_TCP" and "tcp4_wf t"
    and "fr = eth_ip_header h @ tcp_header t @ payload" and "skb_holds s fr"
    and "length (eth_ip_header h @ tcp_header t) \<le> length (skb_lin s)" and "length payload < 2 ^ 16"
    and "m 0 = Some e0" and "pk_wf e0" and "reserve env 0 = Some re" and "pk_wf re"
  shows "\<exists>m' e. process_packet env s dir m = Some (m', [e]) \<and> pk_ip_proto e = 6 \<and>
    pk_ip_tot_len e = be16 (h_tot0 h) (h_tot1 h) \<and> pk_ttl e = h_ttl h \<and>
    pk_ip_flags e = drop_bit 4 (h_frag0 h) AND 0x07 \<and>
    pk_src_port e = be16 (t_sport0 t) (t_sport1 t) \<and> pk_dst_port e = be16 (t_dport0 t) (t_dport1 t) \<and>
    pk_tcp_flags e = t_flags t AND 0x3F \<and>
    unat (pk_payload_off e) = length (eth_ip_header h @ tcp_header t) \<and>
    unat (pk_payload_len e) = length payload"
proof -
  let ?n = "length (skb_lin s)"
  have "skb_lin s = take ?n ((eth_ip_header h @ tcp_header t) @ payload)"
    using assms(4,5) by (auto simp: skb_holds_def prefix_def simp del: take_append)
      (metis append_eq_conv_conj)
  with assms(6) obtain r where lin: "skb_lin s = eth_ip_header h @ tcp_header t @ r"
    by (metis append_assoc take_append take_all)
  obtain ihl where 1: "pt_ip_hdr (skb_lin s) = Some ihl" "unat (14 + ihl) = length (eth_ip_header h)"
    using pt_ip_hdr_header [OF assms(1), of "tcp_header t @ r"] lin by auto
  obtain po where 2: "pt_l4 (skb_lin s) ihl = Some (be16 (t_sport0 t) (t_sport1 t), be16 (t_dport0 t) (t_dport1 t), po)"
    "unat po = length (eth_ip_header h @ tcp_header t)"
    using pt_l4_tcp [OF assms(1-3) 1(2), of r] lin by auto
  note ip = eth_ip_fields [OF assms(1), of "tcp_header t @ r", folded lin]
  have fl: "tcp_flag_byte (skb_lin s) (unat (14 + ihl)) = t_flags t"
    unfolding 1(2) lin using tcp_fields(3) [OF assms(3) refl] .
  have h: "pk_headers s = Some (ihl, be16 (t_sport0 t) (t_sport1 t), be16 (t_dport0 t) (t_dport1 t), po,
      t_flags t AND 0x3F)"
    using 1 2 ip(5) assms(2) fl by (simp add: pk_headers_pt pk_l4_pt_l4 pack_flags_mask)
  obtain m' e' where r: "process_packet env s dir m = map_option (Pair m') (capture_bytes env s e')"
    "hint_update (pk_ip_fields s ihl (be16 (t_sport0 t) (t_sport1 t)) (be16 (t_dport0 t) (t_dport1 t)) po
       (t_flags t AND 0x3F) (pk_clear env dir e0)) e'"
    using process_packet_ok [where m = m, OF assms(5,8,9), of env dir] h by auto
  obtain c bs where e: "capture_bytes env s e' =
      Some [e'\<lparr>pk_reserved := [0, 0], pk_cap_len := c, pk_packet := bs\<rparr>]"
    using capture_bytes_frame [OF assms(5,10), of e'] assms(11) by (auto simp: pk_wf_def)
  have "unat po + length payload = unat (skb_len s)"
    using 2 assms(4,5) by (simp add: skb_holds_def)
  then have "unat (payload_len_of (skb_len s) po) = length payload"
    using assms(7) by (rule payload_len_exact)
  then show ?thesis
    using r(1) e 2 ip assms(2) hint_update_fields [OF r(2)]
    by (simp add: pk_ip_fields_def Let_def ip_flag_bits IPPROTO_TCP_def)
qed

definition sample_tcp :: tcp4 where
  "sample_tcp = \<lparr>t_sport0 = 0xC3, t_sport1 = 0x50, t_dport0 = 1, t_dport1 = 0xBB, t_seq_ack = replicate 8 9,
     t_reserved = 0, t_flags = 0xC2, t_tail = replicate 6 0, t_opts = replicate 20 1\<rparr>"

lemma pk_parses_tcp_witness:
  "\<exists>m' e. process_packet pk_env (frame_skb (eth_ip_header (sample_ip4 IPPROTO_TCP) @ tcp_header sample_tcp @ [1, 2, 3]) 74)
      DIR_EGRESS (array_map1 pk_blank) = Some (m', [e]) \<and> pk_tcp_flags e = 0x02 \<and> pk_ip_flags e = 4 \<and>
     unat (pk_payload_len e) = 3"
proof -
  let ?fr = "eth_ip_header (sample_ip4 IPPROTO_TCP) @ tcp_header sample_tcp @ [1, 2, 3]"
  have t: "tcp4_wf sample_tcp" by (simp add: tcp4_wf_def sample_tcp_def)
  have p: "h_proto (sample_ip4 IPPROTO_TCP) = IPPROTO_TCP" by (simp add: sample_ip4_def)
  have len: "length (eth_ip_header (sample_ip4 IPPROTO_TCP)) = 34" "length (tcp_header sample_tcp) = 40"
    using length_eth_ip_header [OF sample_ip4_wf, of IPPROTO_TCP] length_tcp_header [OF t]
    by (simp_all add: sample_ip4_def sample_tcp_def)
  have s: "skb_holds (frame_skb ?fr 74) ?fr" by (rule frame_skb_holds) (simp add: len)
  show ?thesis
    using pk_parses_tcp [OF sample_ip4_wf p t refl s, of "array_map1 pk_blank" pk_blank pk_env pk_blank DIR_EGRESS]
      len
    by (auto simp: array_map1_def pk_env_def frame_skb_def sample_tcp_def sample_ip4_def)
qed

end
