(* ===== verification/Pksniff_Ui.thy ===== *)
theory Pksniff_Ui
  imports Pksniff_Filter Pksniff_Path "HOL-Library.Multiset"
begin

text \<open>
  The user-space side of \<open>pksniff\<close> (\<open>pksniff/Pksniff.c\<close>): the ring of captured packets, the
  statistics, the packet list, the detail panel with its hex dump, the keys, and the capture files.
  The drawing functions are modelled by the text they print; ncurses itself is not.
\<close>

section \<open>State\<close>

definition MAX_PACKETS :: nat where "MAX_PACKETS = 8192"
definition MAX_TALKERS :: nat where "MAX_TALKERS = 5"
definition STATS_INTERVAL :: int where "STATS_INTERVAL = 1"

record talker =
  tk_ip :: u32
  tk_bytes :: u64
  tk_pkts :: u64

definition no_talker :: talker where
  "no_talker = \<lparr>tk_ip = 0, tk_bytes = 0, tk_pkts = 0\<rparr>"

text \<open>The globals. \<open>pcap_out\<close> is what has been written to the file of the option \<open>-o\<close>, if it
  is open. The rates are differences of counters; C stores them as \<open>double\<close>.\<close>

record ui_state =
  pkt_ring :: "pk_event list"
  pkt_count :: nat
  pkt_head :: nat
  g_running :: bool
  g_paused :: bool
  g_filter :: filter_st
  g_filter_mode :: bool
  g_filter_buf :: "char list"
  g_filter_cursor :: nat
  g_selected :: int
  g_scroll_top :: int
  g_detail_mode :: bool
  g_total_pkts :: u64
  g_total_bytes :: u64
  g_last_pkts :: u64
  g_last_bytes :: u64
  g_pps :: u64
  g_bps :: u64
  g_talkers :: "talker list"
  g_top :: "talker list"
  g_last_stats_ts :: int
  pcap_out :: "u8 list option"

section \<open>Colours\<close>

definition COL_TCP :: nat where "COL_TCP = 2"
definition COL_UDP :: nat where "COL_UDP = 3"
definition COL_ICMP :: nat where "COL_ICMP = 4"
definition COL_ARP :: nat where "COL_ARP = 5"
definition COL_DNS :: nat where "COL_DNS = 6"
definition COL_HTTP :: nat where "COL_HTTP = 7"
definition COL_TLS :: nat where "COL_TLS = 8"
definition COL_OTHER :: nat where "COL_OTHER = 9"
definition COL_SELECTED :: nat where "COL_SELECTED = 10"

definition col_for_event :: "pk_event \<Rightarrow> nat" where
  "col_for_event e =
     (if pk_ip_proto e = 0 \<and> pk_src_ip e = 0 then COL_ARP
      else if pk_app_tag e = APP_DNS then COL_DNS
      else if pk_app_tag e = APP_HTTP then COL_HTTP
      else if pk_app_tag e = APP_TLS then COL_TLS
      else if pk_app_tag e = APP_ICMP then COL_ICMP
      else if pk_ip_proto e = IPPROTO_TCP then COL_TCP
      else if pk_ip_proto e = IPPROTO_UDP then COL_UDP
      else if pk_ip_proto e = IPPROTO_ICMP then COL_ICMP
      else COL_OTHER)"

section \<open>Events\<close>

definition ring_store :: "pk_event \<Rightarrow> ui_state \<Rightarrow> ui_state" where
  "ring_store e st = st\<lparr>
     pkt_ring := (pkt_ring st)[pkt_head st := e],
     pkt_head := (pkt_head st + 1) mod MAX_PACKETS,
     pkt_count := (if pkt_count st < MAX_PACKETS then pkt_count st + 1 else pkt_count st)\<rparr>"

text \<open>The expression \<open>(pkt_head - total + i + MAX_PACKETS) % MAX_PACKETS\<close>; \<open>total\<close> is at most
  \<open>MAX_PACKETS\<close>.\<close>

definition ring_index :: "nat \<Rightarrow> nat \<Rightarrow> nat \<Rightarrow> nat" where
  "ring_index head tot i = (head + MAX_PACKETS - tot + i) mod MAX_PACKETS"

text \<open>The loop over the ring that every reader contains, oldest packet first.\<close>

definition visible :: "ui_state \<Rightarrow> nat list" where
  "visible st = filter (\<lambda>idx. event_matches (g_filter st) (pkt_ring st ! idx))
     (map (ring_index (pkt_head st) (pkt_count st)) [0..<pkt_count st])"

subsection \<open>Statistics\<close>

text \<open>The search for the place in the table and the shift behind it.\<close>

definition top_insert :: "talker list \<Rightarrow> talker \<Rightarrow> talker list" where
  "top_insert tab t =
     (case find (\<lambda>j. tk_bytes (tab ! j) < tk_bytes t) [0..<MAX_TALKERS] of
        None \<Rightarrow> tab
      | Some j \<Rightarrow> (fold (\<lambda>k a. a[k := a ! (k - 1)]) (rev [j + 1..<MAX_TALKERS]) tab)[j := t])"

definition top_talkers :: "talker list \<Rightarrow> talker list" where
  "top_talkers ts =
     foldl (\<lambda>tab t. if tk_ip t = 0 then tab else top_insert tab t) (replicate MAX_TALKERS no_talker) ts"

definition count_talker :: "pk_event \<Rightarrow> talker list \<Rightarrow> talker list" where
  "count_talker e ts =
     (let slot = unat (pk_src_ip e AND 0xFF); t = ts ! slot
      in if tk_ip t = 0 \<or> tk_ip t = pk_src_ip e
         then ts[slot := t\<lparr>tk_ip := pk_src_ip e, tk_bytes := tk_bytes t + ucast (pk_packet_len e),
                          tk_pkts := tk_pkts t + 1\<rparr>]
         else ts)"

definition update_stats :: "int \<Rightarrow> pk_event \<Rightarrow> ui_state \<Rightarrow> ui_state" where
  "update_stats now e st =
     (let st = st\<lparr>g_total_pkts := g_total_pkts st + 1,
                  g_total_bytes := g_total_bytes st + ucast (pk_packet_len e),
                  g_talkers := count_talker e (g_talkers st)\<rparr>
      in if STATS_INTERVAL \<le> now - g_last_stats_ts st
         then st\<lparr>g_pps := g_total_pkts st - g_last_pkts st,
                 g_bps := g_total_bytes st - g_last_bytes st,
                 g_last_pkts := g_total_pkts st,
                 g_last_bytes := g_total_bytes st,
                 g_last_stats_ts := now,
                 g_top := top_talkers (g_talkers st)\<rparr>
         else st)"

text \<open>The ring-buffer callback; \<open>None\<close> is a read outside the packet array. The arguments are the
  time of day and \<open>time(NULL)\<close>.\<close>

definition pk_handle_event :: "nat \<Rightarrow> nat \<Rightarrow> int \<Rightarrow> pk_event \<Rightarrow> ui_state \<Rightarrow> ui_state option" where
  "pk_handle_event tv_sec tv_usec now e st =
     (if g_paused st then Some st
      else (case (case pcap_out st of
                    None \<Rightarrow> Some None
                  | Some bs \<Rightarrow> map_option (\<lambda>r. Some (bs @ r))
                      (pcap_record tv_sec tv_usec (pk_cap_len e) (pk_packet_len e) (pk_packet e))) of
              None \<Rightarrow> None
            | Some out \<Rightarrow> Some (update_stats now e (ring_store e (st\<lparr>pcap_out := out\<rparr>)))))"

section \<open>The packet list\<close>

text \<open>The clamping of the selection and of the first row.\<close>

definition clamp_view :: "int \<Rightarrow> ui_state \<Rightarrow> ui_state" where
  "clamp_view rows st =
     (let vcount = int (length (visible st));
          sel = (if vcount \<le> g_selected st then (if 0 < vcount then vcount - 1 else 0) else g_selected st);
          top = (if sel < g_scroll_top st then sel else g_scroll_top st);
          top = (if top + rows - 1 \<le> sel then sel - rows + 2 else top)
      in st\<lparr>g_selected := sel, g_scroll_top := top\<rparr>)"

definition flag_str :: "u8 \<Rightarrow> (nat \<times> string) list \<Rightarrow> string" where
  "flag_str flags names = concat (map (\<lambda>(k, s). if bit flags k then s else []) names)"

definition row_info :: "pk_event \<Rightarrow> string" where
  "row_info e =
     (if pk_app_tag e = APP_DNS \<and> pk_dns_name e ! 0 \<noteq> NUL then take 47 (cstr (pk_dns_name e))
      else if pk_app_tag e = APP_HTTP \<and> pk_http_info e ! 0 \<noteq> NUL then take 47 (cstr (pk_http_info e))
      else if pk_app_tag e = APP_TLS \<and> pk_tls_sni e ! 0 \<noteq> NUL
      then take 47 (''SNI:'' @ cstr (pk_tls_sni e))
      else if pk_ip_proto e = IPPROTO_TCP
      then take 47 (''['' @ flag_str (pk_tcp_flags e)
        [(1, ''S''), (4, ''A''), (0, ''F''), (2, ''R''), (3, ''P''), (5, ''U'')] @ '']'')
      else [])"

definition event_proto :: "pk_event \<Rightarrow> string" where
  "event_proto e = (if pk_ip_proto e = 0 \<and> pk_src_ip e = 0 then ''ARP'' else proto_str (pk_ip_proto e))"

text \<open>One row: colour and text. A negative width or precision of \<open>%-*.*s\<close> in a narrow window is a
  left-justified field without truncation.\<close>

definition packet_row :: "int \<Rightarrow> int \<Rightarrow> int \<Rightarrow> pk_event \<Rightarrow> nat \<times> string" where
  "packet_row cols selected vi e =
     (let w = cols - 72
      in (if vi = selected then COL_SELECTED else col_for_event e,
          padr 4 (udec (nat (vi + 1))) @ '' '' @
          padr 3 (if pk_direction e = DIR_INGRESS then ''IN '' else ''OUT'') @ '' '' @
          padr 3 (event_proto e) @ '' '' @
          padr 15 (take 15 (ip_str (pk_src_ip e))) @ '' '' @ padr 5 (dec32 (pk_src_port e)) @ '' '' @
          padr 15 (take 15 (ip_str (pk_dst_ip e))) @ '' '' @ padr 5 (dec32 (pk_dst_port e)) @ '' '' @
          padl 6 (dec32 (pk_packet_len e)) @ '' '' @ padr 4 (app_str (pk_app_tag e)) @ ''  '' @
          padr (nat \<bar>w\<bar>) (if w < 0 then row_info e else take (nat w) (row_info e))))"

text \<open>The rows 1 to \<open>rows - 1\<close> of the window, after the clamping; \<open>None\<close> is a read in front of the
  array \<open>visible\<close>, which a negative \<open>g_scroll_top\<close> causes in the first row.\<close>

definition draw_packet_list :: "int \<Rightarrow> int \<Rightarrow> ui_state \<Rightarrow> (ui_state \<times> (nat \<times> string) list) option" where
  "draw_packet_list rows cols st0 =
     (let st = clamp_view rows st0; vis = visible st; top = g_scroll_top st
      in if top < 0 \<and> 1 < rows then None
         else Some (st, map (\<lambda>vi. packet_row cols (g_selected st) (int vi) (pkt_ring st ! (vis ! vi)))
                [nat top..<min (length vis) (nat top + nat (rows - 1))]))"

section \<open>The detail panel\<close>

definition printable :: "u8 \<Rightarrow> char" where
  "printable b = (if 32 \<le> b \<and> b < 127 then chr_of b else CHR ''.'')"

text \<open>One row of the hex dump: \<open>n\<close> bytes per row from offset \<open>off\<close>. The text column is built in an
  array of 20 bytes with plain stores.\<close>

definition hex_row :: "nat \<Rightarrow> nat \<Rightarrow> pk_event \<Rightarrow> string option" where
  "hex_row n off e =
     (let k = min n (unat (pk_cap_len e) - off); bytes = slice off k (pk_packet e)
      in if length (pk_packet e) < off + k then None
         else Option.bind (store_all 0 (map printable bytes) (replicate 20 NUL)) (\<lambda>asc.
              Option.bind (arr_set asc k NUL) (\<lambda>asc.
                Some (padz 4 (uhex off) @ ''  '' @
                  padr (n * 3) (take 63 (concat (map (\<lambda>b. padz 2 (uhex (unat b)) @ '' '') bytes))) @
                  ''  '' @ cstr asc))))"

function hex_rows :: "nat \<Rightarrow> int \<Rightarrow> int \<Rightarrow> nat \<Rightarrow> pk_event \<Rightarrow> (int \<times> string) list option" where
  "hex_rows n rows row off e =
     (if off < unat (pk_cap_len e) \<and> row < rows - 1
      then Option.bind (hex_row n off e) (\<lambda>s.
             map_option (\<lambda>rs. (row, s) # rs) (hex_rows n rows (row + 1) (off + n) e))
      else Some [])"
  by pat_completeness auto
termination by (relation "measure (\<lambda>(n, rows, row, off, e). nat (rows - row))") auto

declare hex_rows.simps [simp del]

definition bytes_per_row :: "int \<Rightarrow> nat" where
  "bytes_per_row cols =
     (let n = (cols - 6) div 3 in if n < 8 then 8 else if 16 < n then 16 else nat n)"

text \<open>The horizontal bar, a character of three bytes in UTF-8.\<close>

definition bars :: "nat \<Rightarrow> string" where
  "bars n = concat (replicate n [CHR 0xE2, CHR 0x94, CHR 0x80])"

definition detail_head :: "pk_event \<Rightarrow> string list" where
  "detail_head e =
     [bars 3 @ '' Packet Detail '' @ bars 19,
      ''Dir:      '' @ (if pk_direction e = DIR_INGRESS then ''INGRESS'' else ''EGRESS''),
      ''Proto:    '' @ event_proto e @ '' (0x'' @ padz 2 (uhex (unat (pk_ip_proto e))) @ '')'',
      ''Src:      '' @ ip_str (pk_src_ip e) @ '':'' @ dec32 (pk_src_port e),
      ''Dst:      '' @ ip_str (pk_dst_ip e) @ '':'' @ dec32 (pk_dst_port e),
      ''TTL:      '' @ dec32 (pk_ttl e),
      ''IP len:   '' @ dec32 (pk_packet_len e) @ ''  (cap '' @ dec32 (pk_cap_len e) @ '')'',
      ''Payload:  '' @ dec32 (pk_payload_len e) @ '' bytes''] @
     (if pk_ip_proto e = IPPROTO_TCP
      then [''TCP flags:['' @ flag_str (pk_tcp_flags e)
              [(1, ''SYN ''), (4, ''ACK ''), (0, ''FIN ''), (2, ''RST ''), (3, ''PSH ''), (5, ''URG '')] @ '']'']
      else [])"

definition detail_app :: "pk_event \<Rightarrow> string list" where
  "detail_app e =
     (if pk_app_tag e \<noteq> 0
      then [bars 3 @ '' App Layer ('' @ app_str (pk_app_tag e) @ '')''] @
        (if pk_dns_name e ! 0 \<noteq> NUL then [''DNS:  '' @ cstr (pk_dns_name e)] else []) @
        (if pk_http_info e ! 0 \<noteq> NUL then [''HTTP: '' @ cstr (pk_http_info e)] else []) @
        (if pk_tls_sni e ! 0 \<noteq> NUL then [''SNI:  '' @ cstr (pk_tls_sni e)] else [])
      else [])"

text \<open>The panel of an event: the rows that are printed, with their numbers.\<close>

definition event_detail :: "int \<Rightarrow> int \<Rightarrow> pk_event \<Rightarrow> (int \<times> string) list option" where
  "event_detail rows cols e =
     (let hd = zip (map int [1..<Suc (length (detail_head e))]) (detail_head e);
          row = 1 + int (length (detail_head e));
          app = detail_app e;
          row1 = (if app = [] then row else row + 1);
          ap = zip (map (\<lambda>k. row1 + int k) [0..<length app]) app;
          row2 = row1 + int (length app) + 1
      in if row2 < rows - 2
         then map_option (\<lambda>hex. hd @ ap @
                (row2, bars 3 @ '' Hex Dump (first '' @ dec32 (pk_cap_len e) @ '' bytes)'') # hex)
                (hex_rows (bytes_per_row cols) rows (row2 + 1) 0 e)
         else Some (hd @ ap))"

text \<open>\<open>draw_detail\<close>: the selected packet of the filtered view, nothing when there is none.\<close>

definition draw_detail :: "int \<Rightarrow> int \<Rightarrow> ui_state \<Rightarrow> (int \<times> string) list option" where
  "draw_detail rows cols st =
     (if 0 \<le> g_selected st \<and> g_selected st < int (length (visible st))
      then event_detail rows cols (pkt_ring st ! (visible st ! nat (g_selected st)))
      else Some [])"

text \<open>The rows of the talkers in the statistics panel.\<close>

definition talker_rows :: "ui_state \<Rightarrow> string list" where
  "talker_rows st =
     map (\<lambda>t. padr 16 (ip_str (tk_ip t)) @ ''  '' @ padl 6 (dec32 (tk_pkts t)) @ '' pkts  '' @
              padl 8 (dec32 (tk_bytes t)) @ '' B'')
       (takeWhile (\<lambda>t. tk_ip t \<noteq> 0) (g_top st))"

section \<open>Saving\<close>

text \<open>\<open>save_filtered_pcap\<close>: the contents of the file; \<open>clock k\<close> is the time of day of the
  \<open>k\<close>-th record.\<close>

fun save_records :: "(nat \<Rightarrow> nat \<times> nat) \<Rightarrow> nat \<Rightarrow> pk_event list \<Rightarrow> u8 list option" where
  "save_records clock k [] = Some []"
| "save_records clock k (e # es) =
     Option.bind (pcap_record (fst (clock k)) (snd (clock k)) (pk_cap_len e) (pk_packet_len e) (pk_packet e))
       (\<lambda>r. map_option (\<lambda>rs. r @ rs) (save_records clock (Suc k) es))"

definition save_filtered_pcap :: "(nat \<Rightarrow> nat \<times> nat) \<Rightarrow> ui_state \<Rightarrow> u8 list option" where
  "save_filtered_pcap clock st =
     map_option (\<lambda>rs. pcap_global_header PK_MAX_CAPTURE_BYTES @ rs)
       (save_records clock 0 (map ((!) (pkt_ring st)) (visible st)))"

section \<open>Keys\<close>

text \<open>What \<open>handle_input_normal\<close> does besides changing the state.\<close>

datatype ui_effect =
    Quiet
  | Relayout
  | Saved "u8 list"

text \<open>\<open>page\<close> is \<open>getmaxy(w_list)\<close>; \<open>opened\<close> tells whether the file of the key \<open>S\<close> could be
  created. \<open>None\<close> is a read outside a packet array.\<close>

definition handle_input_normal ::
  "int \<Rightarrow> int \<Rightarrow> bool \<Rightarrow> (nat \<Rightarrow> nat \<times> nat) \<Rightarrow> ui_state \<Rightarrow> (ui_state \<times> ui_effect) option" where
  "handle_input_normal ch page opened clock st =
     (let vcount = int (length (visible st)); last = (if 0 < vcount then vcount - 1 else 0)
      in if ch = 113 \<or> ch = 81 then Some (st\<lparr>g_running := False\<rparr>, Quiet)
         else if ch = 112 \<or> ch = 80 then Some (st\<lparr>g_paused := \<not> g_paused st\<rparr>, Quiet)
         else if ch = 102 \<or> ch = 70 then
           (let s = cstr (g_filter_buf st)
            in Some (st\<lparr>g_filter_mode := True, g_filter_buf := s @ replicate (128 - length s) NUL,
                        g_filter_cursor := length s\<rparr>, Quiet))
         else if ch = 100 \<or> ch = 68 \<or> ch = 10 \<or> ch = KEY_ENTER
           then Some (st\<lparr>g_detail_mode := \<not> g_detail_mode st\<rparr>, Relayout)
         else if ch = 114 \<or> ch = 82
           then Some (st\<lparr>g_filter := no_filter, g_filter_buf := (g_filter_buf st)[0 := NUL],
                         g_filter_cursor := 0\<rparr>, Quiet)
         else if ch = 115 \<or> ch = 83
           then (if opened then map_option (\<lambda>bs. (st, Saved bs)) (save_filtered_pcap clock st)
                 else Some (st, Quiet))
         else if ch = KEY_UP \<or> ch = 107
           then Some (if 0 < g_selected st then st\<lparr>g_selected := g_selected st - 1\<rparr> else st, Quiet)
         else if ch = KEY_DOWN \<or> ch = 106
           then Some (if g_selected st < vcount - 1 then st\<lparr>g_selected := g_selected st + 1\<rparr> else st,
                      Quiet)
         else if ch = KEY_PPAGE
           then (let s = g_selected st - (page - 2)
                 in Some (st\<lparr>g_selected := if s < 0 then 0 else s\<rparr>, Quiet))
         else if ch = KEY_NPAGE
           then (let s = g_selected st + (page - 2)
                 in Some (st\<lparr>g_selected := if vcount \<le> s then last else s\<rparr>, Quiet))
         else if ch = KEY_HOME then Some (st\<lparr>g_selected := 0\<rparr>, Quiet)
         else if ch = KEY_END then Some (st\<lparr>g_selected := last\<rparr>, Quiet)
         else if ch = KEY_RESIZE then Some (st, Relayout)
         else Some (st, Quiet))"

definition handle_input_filter :: "int \<Rightarrow> ui_state \<Rightarrow> ui_state option" where
  "handle_input_filter ch st =
     (if ch = 27 then Some (st\<lparr>g_filter_mode := False\<rparr>)
      else if ch = 10 \<or> ch = KEY_ENTER
      then Some (st\<lparr>g_filter := parse_filter_str (cstr (g_filter_buf st)), g_selected := 0,
                    g_scroll_top := 0, g_filter_mode := False\<rparr>)
      else map_option (\<lambda>(buf, cursor). st\<lparr>g_filter_buf := buf, g_filter_cursor := cursor\<rparr>)
             (edit_filter ch (g_filter_buf st, g_filter_cursor st)))"

text \<open>The sizes of the windows: rows and columns of the list, and columns of the detail panel.\<close>

definition layout_windows :: "int \<Rightarrow> int \<Rightarrow> bool \<Rightarrow> int \<times> int \<times> int" where
  "layout_windows rows cols detail =
     (let stats_h = 8;
          list_cols = (if detail then cols * 6 div 10 else cols);
          list_rows = rows - 4 - stats_h;
          list_rows = (if list_rows < 4 then 4 else list_rows)
      in (list_rows, list_cols, if detail then cols - list_cols else 0))"

end
