(* ===== verification/Pksniff_View.thy ===== *)
theory Pksniff_View
  imports Pksniff_Ui
begin

text \<open>
  What the user of \<open>pksniff\<close> sees: the ring as the last packets received, the filtered view, the
  saved capture files, the top talkers, the selection, and the hex dump.
\<close>

section \<open>The ring\<close>

definition ring_ok :: "ui_state \<Rightarrow> bool" where
  "ring_ok st \<longleftrightarrow> length (pkt_ring st) = 8192 \<and> pkt_head st < 8192 \<and> pkt_count st \<le> 8192 \<and>
     (pkt_count st < 8192 \<longrightarrow> pkt_head st = pkt_count st)"

text \<open>The packets in the ring, oldest first.\<close>

definition captured :: "ui_state \<Rightarrow> pk_event list" where
  "captured st = map (\<lambda>i. pkt_ring st ! ring_index (pkt_head st) (pkt_count st) i) [0..<pkt_count st]"

lemma length_captured [simp]: "length (captured st) = pkt_count st"
  by (simp add: captured_def)

lemma ring_store_ok: "ring_ok st \<Longrightarrow> ring_ok (ring_store e st)"
  by (auto simp: ring_ok_def ring_store_def MAX_PACKETS_def mod_less)

lemma ring_store_contents:
  assumes "ring_ok st"
  shows "captured (ring_store e st) = last_n 8192 (captured st @ [e])"
proof (cases "pkt_count st < 8192")
  case True
  then have h: "pkt_head st = pkt_count st" "length (pkt_ring st) = 8192" "pkt_count st < 8192"
    using assms by (simp_all add: ring_ok_def)
  have idx: "ring_index ((pkt_count st + 1) mod 8192) (pkt_count st + 1) i = i" if "i \<le> pkt_count st" for i
    using that True by (cases "pkt_count st + 1 = 8192") (auto simp: ring_index_def MAX_PACKETS_def)
  have idx0: "ring_index (pkt_count st) (pkt_count st) i = i" if "i < pkt_count st" for i
    using that True by (simp add: ring_index_def MAX_PACKETS_def)
  show ?thesis
  proof (rule nth_equalityI)
    fix i assume "i < length (captured (ring_store e st))"
    then have i: "i \<le> pkt_count st" using True by (simp add: ring_store_def MAX_PACKETS_def)
    then show "captured (ring_store e st) ! i = last_n 8192 (captured st @ [e]) ! i"
      using h idx idx0 by (auto simp: captured_def ring_store_def MAX_PACKETS_def last_n_all nth_append
          nth_list_update simp del: upt_Suc)
  qed (use True in \<open>simp add: ring_store_def MAX_PACKETS_def\<close>)
next
  case False
  then have c: "pkt_count st = 8192" and h: "pkt_head st < 8192" and l: "length (pkt_ring st) = 8192"
    using assms by (simp_all add: ring_ok_def)
  have old: "captured st ! i = pkt_ring st ! ((pkt_head st + i) mod 8192)" if "i < 8192" for i
    using that c by (simp add: captured_def ring_index_def MAX_PACKETS_def)
  have new: "captured (ring_store e st) ! i =
      (pkt_ring st)[pkt_head st := e] ! ((pkt_head st + 1 + i) mod 8192)" if "i < 8192" for i
    using that c by (simp add: captured_def ring_store_def ring_index_def MAX_PACKETS_def mod_simps)
  show ?thesis
  proof (rule nth_equalityI)
    show "length (captured (ring_store e st)) = length (last_n 8192 (captured st @ [e]))"
      using c by (simp add: ring_store_def MAX_PACKETS_def)
  next
    fix i assume "i < length (captured (ring_store e st))"
    then have i: "i < 8192" using c by (simp add: ring_store_def MAX_PACKETS_def)
    show "captured (ring_store e st) ! i = last_n 8192 (captured st @ [e]) ! i"
    proof (cases "i = 8191")
      case True
      have "(pkt_head st + 1 + 8191) mod 8192 = pkt_head st" using h by simp
      then show ?thesis using True new [of i] c h l by (simp add: last_n_def nth_append)
    next
      case False
      then have i: "i < 8191" using i by simp
      have "(pkt_head st + 1 + i) mod 8192 \<noteq> pkt_head st"
        using h i by (auto simp: mod_if)
      then show ?thesis using i new [of i] old [of "Suc i"] c h l
        by (simp add: last_n_def nth_append)
    qed
  qed
qed

interpretation packet_log: bounded_log ring_store captured ring_ok 8192
  by unfold_locales (simp_all add: ring_store_ok ring_store_contents)

lemma visible_events:
  "map ((!) (pkt_ring st)) (visible st) = filter (event_matches (g_filter st)) (captured st)"
  by (simp add: visible_def captured_def filter_map o_def)

section \<open>Event sequences\<close>

text \<open>The arguments of one callback: time of day, \<open>time(NULL)\<close> and the event.\<close>

type_synonym arrival = "nat \<times> nat \<times> int \<times> pk_event"

definition handle_arrival :: "arrival \<Rightarrow> ui_state \<Rightarrow> ui_state option" where
  "handle_arrival x st = (case x of (s, u, now, e) \<Rightarrow> pk_handle_event s u now e st)"

definition arrived :: "arrival \<Rightarrow> pk_event" where
  "arrived x = snd (snd (snd x))"

lemma arrival_simps [simp]:
  "handle_arrival (s, u, now, e) st = pk_handle_event s u now e st" "arrived (s, u, now, e) = e"
  by (simp_all add: handle_arrival_def arrived_def)

text \<open>Events as the kernel side sends them.\<close>

definition in_bounds :: "pk_event \<Rightarrow> bool" where
  "in_bounds e \<longleftrightarrow> unat (pk_cap_len e) \<le> 256 \<and> length (pk_packet e) = 256"

lemma pk_good_in_bounds: "pk_good e \<Longrightarrow> in_bounds e"
  by (simp add: pk_good_def strings_ok_def pk_wf_def in_bounds_def word_le_nat_alt)

lemma pcap_record_in_bounds:
  "in_bounds e \<Longrightarrow> \<exists>r. pcap_record s u (pk_cap_len e) (pk_packet_len e) (pk_packet e) = Some r"
  by (simp add: pcap_record_def in_bounds_def)

lemma captured_cong:
  "pkt_ring st = pkt_ring st' \<Longrightarrow> pkt_head st = pkt_head st' \<Longrightarrow> pkt_count st = pkt_count st' \<Longrightarrow>
   captured st = captured st' \<and> ring_ok st = ring_ok st'"
  by (simp add: captured_def ring_ok_def)

lemma update_stats_frame [simp]:
  "pkt_ring (update_stats now e st) = pkt_ring st" "pkt_head (update_stats now e st) = pkt_head st"
  "pkt_count (update_stats now e st) = pkt_count st" "g_filter (update_stats now e st) = g_filter st"
  "g_paused (update_stats now e st) = g_paused st" "pcap_out (update_stats now e st) = pcap_out st"
  "g_talkers (update_stats now e st) = count_talker e (g_talkers st)"
  by (simp_all add: update_stats_def Let_def)

lemma ring_store_frame [simp]:
  "g_filter (ring_store e st) = g_filter st" "g_paused (ring_store e st) = g_paused st"
  "pcap_out (ring_store e st) = pcap_out st" "g_talkers (ring_store e st) = g_talkers st"
  by (simp_all add: ring_store_def)

lemma handle_event_step:
  assumes "\<not> g_paused st" and "in_bounds e"
  shows "\<exists>st'. pk_handle_event s u now e st = Some st' \<and> \<not> g_paused st' \<and> g_filter st' = g_filter st \<and>
    g_talkers st' = count_talker e (g_talkers st) \<and>
    captured st' = captured (ring_store e st) \<and> ring_ok st' = ring_ok (ring_store e st) \<and>
    pcap_out st' = map_option (\<lambda>bs. bs @ the (pcap_record s u (pk_cap_len e) (pk_packet_len e) (pk_packet e)))
      (pcap_out st)"
proof -
  obtain r where r: "pcap_record s u (pk_cap_len e) (pk_packet_len e) (pk_packet e) = Some r"
    using pcap_record_in_bounds [OF assms(2)] by blast
  define out where "out = map_option (\<lambda>bs. bs @ r) (pcap_out st)"
  let ?st = "update_stats now e (ring_store e (st\<lparr>pcap_out := out\<rparr>))"
  have "pk_handle_event s u now e st = Some ?st"
    using assms(1) r by (cases "pcap_out st") (simp_all add: pk_handle_event_def out_def)
  moreover have "captured ?st = captured (ring_store e st) \<and> ring_ok ?st = ring_ok (ring_store e st)"
    by (rule captured_cong) (simp_all add: ring_store_def)
  ultimately show ?thesis using assms(1) r by (simp add: out_def)
qed

text \<open>C3: the packet list shows the recent past: after any sequence of events that arrive while the
  list is not paused, from an empty ring, the visible packets are exactly the ones among the last 8192
  events that match the filter, in order (an older match is not kept when 8192 others follow it), and
  the file of the option \<open>-o\<close> holds one record for every event, matching or not.\<close>

theorem pk_view_of_history:
  assumes "ring_ok st" and "pkt_count st = 0" and "\<not> g_paused st" and "\<forall>x \<in> set xs. in_bounds (arrived x)"
  shows "\<exists>st'. run_steps handle_arrival xs st = Some st' \<and>
    map ((!) (pkt_ring st')) (visible st') =
      filter (event_matches (g_filter st)) (last_n 8192 (map arrived xs)) \<and>
    pcap_out st' = map_option (\<lambda>bs. bs @ concat (map (\<lambda>(s, u, now, e).
      the (pcap_record s u (pk_cap_len e) (pk_packet_len e) (pk_packet e))) xs)) (pcap_out st)"
proof -
  have "\<exists>st'. run_steps handle_arrival xs st = Some st' \<and> g_filter st' = g_filter st \<and>
      captured st' = last_n 8192 (ys @ map arrived xs) \<and>
      pcap_out st' = map_option (\<lambda>bs. bs @ concat (map (\<lambda>(s, u, now, e).
        the (pcap_record s u (pk_cap_len e) (pk_packet_len e) (pk_packet e))) xs)) (pcap_out st)"
    if "ring_ok st" "captured st = last_n 8192 ys" "\<not> g_paused st" "\<forall>x \<in> set xs. in_bounds (arrived x)"
    for st ys
    using that
  proof (induction xs arbitrary: st ys)
    case Nil
    then show ?case by (simp add: option.map_ident)
  next
    case (Cons x xs)
    obtain s u now e where x: "x = (s, u, now, e)" by (cases x)
    then have e: "in_bounds e" using Cons.prems by simp
    obtain st1 where st1: "pk_handle_event s u now e st = Some st1" "\<not> g_paused st1"
      "g_filter st1 = g_filter st" "captured st1 = captured (ring_store e st)"
      "ring_ok st1 = ring_ok (ring_store e st)"
      "pcap_out st1 = map_option (\<lambda>bs. bs @ the (pcap_record s u (pk_cap_len e) (pk_packet_len e) (pk_packet e)))
        (pcap_out st)"
      using handle_event_step [OF Cons.prems(3) e] by blast
    have "ring_ok st1" "captured st1 = last_n 8192 (ys @ [e])"
      using packet_log.fold_push [OF Cons.prems(1,2), of "[e]"] st1 by simp_all
    from Cons.IH [OF this st1(2)] Cons.prems(4) obtain st' where
      "run_steps handle_arrival xs st1 = Some st'" "g_filter st' = g_filter st1"
      "captured st' = last_n 8192 ((ys @ [e]) @ map arrived xs)"
      "pcap_out st' = map_option (\<lambda>bs. bs @ concat (map (\<lambda>(s, u, now, e).
        the (pcap_record s u (pk_cap_len e) (pk_packet_len e) (pk_packet e))) xs)) (pcap_out st1)"
      by auto
    then show ?case
      using st1 x by (simp add: option.map_comp o_def)
  qed
  from this [of st "[]"] assms show ?thesis
    by (auto simp: visible_events last_n_def captured_def)
qed

definition ui_start :: ui_state where
  "ui_start =
     \<lparr>pkt_ring = replicate 8192 pk_blank, pkt_count = 0, pkt_head = 0, g_running = True, g_paused = False,
      g_filter = no_filter, g_filter_mode = False, g_filter_buf = replicate 128 NUL, g_filter_cursor = 0,
      g_selected = 0, g_scroll_top = 0, g_detail_mode = False, g_total_pkts = 0, g_total_bytes = 0,
      g_last_pkts = 0, g_last_bytes = 0, g_pps = 0, g_bps = 0, g_talkers = replicate 256 no_talker,
      g_top = replicate 5 no_talker, g_last_stats_ts = 0, pcap_out = None\<rparr>"

lemma ui_start_ok: "ring_ok ui_start" "pkt_count ui_start = 0" "\<not> g_paused ui_start"
  by (simp_all add: ring_ok_def ui_start_def)

lemma pk_view_of_history_witness:
  "\<exists>st'. run_steps handle_arrival [(0, 0, 7, pk_blank), (0, 0, 8, pk_blank\<lparr>pk_ttl := 3\<rparr>)] ui_start = Some st' \<and>
     map ((!) (pkt_ring st')) (visible st') = [pk_blank, pk_blank\<lparr>pk_ttl := 3\<rparr>]"
  using pk_view_of_history [OF ui_start_ok, of "[(0, 0, 7, pk_blank), (0, 0, 8, pk_blank\<lparr>pk_ttl := 3\<rparr>)]"]
  by (auto simp: arrived_def in_bounds_def pk_blank_def ui_start_def last_n_def event_matches_def
      no_filter_def)

section \<open>Saved captures\<close>

lemma map_zip_index: "map (\<lambda>(j, e). f e) (zip [0..<length es] es) = map f es"
  by (rule nth_equalityI) simp_all

lemma save_records_list:
  assumes "\<forall>e \<in> set es. in_bounds e"
  shows "\<exists>rs. save_records clock k es = Some (concat rs) \<and>
    list_all2 (\<lambda>r (s, u, c, l, p). pcap_record s u c l p = Some r) rs
      (map (\<lambda>(j, e). (fst (clock (k + j)), snd (clock (k + j)), pk_cap_len e, pk_packet_len e, pk_packet e))
        (zip [0..<length es] es))"
  using assms
proof (induction es arbitrary: k)
  case Nil
  show ?case by (rule exI [of _ "[]"]) simp
next
  case (Cons e es)
  obtain r where r: "pcap_record (fst (clock k)) (snd (clock k)) (pk_cap_len e) (pk_packet_len e) (pk_packet e) = Some r"
    using pcap_record_in_bounds Cons.prems by fastforce
  obtain rs where rs: "save_records clock (Suc k) es = Some (concat rs)"
    "list_all2 (\<lambda>r (s, u, c, l, p). pcap_record s u c l p = Some r) rs
      (map (\<lambda>(j, e). (fst (clock (Suc k + j)), snd (clock (Suc k + j)), pk_cap_len e, pk_packet_len e, pk_packet e))
        (zip [0..<length es] es))"
    using Cons by fastforce
  have z: "zip [0..<length (e # es)] (e # es) = (0, e) # map (\<lambda>(j, e). (Suc j, e)) (zip [0..<length es] es)"
    by (simp add: upt_conv_Cons zip_map1 flip: map_Suc_upt del: upt_Suc)
  show ?case
    unfolding z
    by (rule exI [of _ "r # rs"]) (use r rs in \<open>simp add: case_prod_unfold o_def\<close>)
qed

text \<open>C23: the key \<open>S\<close> saves what the list shows: the file is a well-formed pcap file whose records are,
  in order, the packets of the ring that match the filter, each with its true length and its
  captured bytes.\<close>

theorem pk_saved_view:
  assumes "\<forall>e \<in> set (captured st). in_bounds e"
  shows "\<exists>bs rs. save_filtered_pcap clock st = Some bs \<and> read_pcap bs = Some (256, rs) \<and>
    map (\<lambda>r. (orig_len r, frame_bytes r)) rs =
      map (\<lambda>e. (unat (pk_packet_len e), take (unat (pk_cap_len e)) (pk_packet e)))
        (filter (event_matches (g_filter st)) (captured st))"
proof -
  let ?es = "filter (event_matches (g_filter st)) (captured st)"
  obtain rs where rs: "save_records clock 0 ?es = Some (concat rs)"
    "list_all2 (\<lambda>r (s, u, c, l, p). pcap_record s u c l p = Some r) rs
      (map (\<lambda>(j, e). (fst (clock (0 + j)), snd (clock (0 + j)), pk_cap_len e, pk_packet_len e, pk_packet e))
        (zip [0..<length ?es] ?es))"
    using save_records_list [of ?es clock 0] assms by auto
  have "map (\<lambda>e. (unat (pk_packet_len e), take (unat (pk_cap_len e)) (pk_packet e))) ?es =
      map (\<lambda>(j, e). (unat (pk_packet_len e), take (unat (pk_cap_len e)) (pk_packet e))) (zip [0..<length ?es] ?es)"
    by (simp only: map_zip_index)
  then show ?thesis
    using rs(1) read_pcap_written [OF _ rs(2), of PK_MAX_CAPTURE_BYTES]
    by (simp add: save_filtered_pcap_def visible_events PK_MAX_CAPTURE_BYTES_def case_prod_unfold o_def)
qed

lemma pk_saved_view_witness:
  "\<exists>bs rs. save_filtered_pcap (\<lambda>k. (k, 0)) (ring_store (pk_blank\<lparr>pk_cap_len := 16\<rparr>) ui_start) = Some bs \<and>
     read_pcap bs = Some (256, rs) \<and> map (\<lambda>r. (orig_len r, frame_bytes r)) rs = [(0, replicate 16 0)]"
proof -
  have c: "captured (ring_store (pk_blank\<lparr>pk_cap_len := 16\<rparr>) ui_start) = [pk_blank\<lparr>pk_cap_len := 16\<rparr>]"
    using ring_store_contents [OF ui_start_ok(1)] by (simp add: captured_def ui_start_def last_n_def)
  have f: "event_matches (g_filter (ring_store (pk_blank\<lparr>pk_cap_len := 16\<rparr>) ui_start)) = (\<lambda>_. True)"
    by (rule ext) (simp add: event_matches_def ui_start_def no_filter_def)
  show ?thesis
    using pk_saved_view [of "ring_store (pk_blank\<lparr>pk_cap_len := 16\<rparr>) ui_start" "\<lambda>k. (k, 0)"]
    unfolding c f by (simp add: in_bounds_def pk_blank_def)
qed

section \<open>Top talkers\<close>

text \<open>Insertion behind the entries with at least as many bytes.\<close>

definition ins_talker :: "talker \<Rightarrow> talker list \<Rightarrow> talker list" where
  "ins_talker t ts = takeWhile (\<lambda>x. tk_bytes t \<le> tk_bytes x) ts @ t # dropWhile (\<lambda>x. tk_bytes t \<le> tk_bytes x) ts"

lemma shift_list:
  assumes "length tab = 5" and "j < 5"
  shows "(fold (\<lambda>k a. a[k := a ! (k - 1)]) (rev [j + 1..<5]) tab)[j := t] = take 5 (take j tab @ t # drop j tab)"
proof -
  obtain a b c d e where "tab = [a, b, c, d, e]"
    using assms(1) by (auto simp: length_Suc_conv eval_nat_numeral)
  moreover have "j \<in> {0, 1, 2, 3, 4}" using assms(2) by auto
  ultimately show ?thesis
    by (auto simp: upt_rec eval_nat_numeral)
qed

lemma top_insert_ins:
  assumes "length tab = 5"
  shows "top_insert tab t = take 5 (ins_talker t tab)"
proof -
  obtain a b c d e where tab: "tab = [a, b, c, d, e]"
    using assms by (auto simp: length_Suc_conv eval_nat_numeral)
  show ?thesis
    unfolding top_insert_def MAX_TALKERS_def
    by (simp add: tab ins_talker_def upt_rec eval_nat_numeral flip: not_less)
qed

lemma ins_talker_simps [simp]:
  "ins_talker t [] = [t]"
  "ins_talker t (x # xs) = (if tk_bytes t \<le> tk_bytes x then x # ins_talker t xs else t # x # xs)"
  by (simp_all add: ins_talker_def)

lemma length_ins_talker [simp]: "length (ins_talker t xs) = Suc (length xs)"
  by (induction xs) auto

lemma take_ins_talker: "take n (ins_talker t (take n xs)) = take n (ins_talker t xs)"
proof (induction n arbitrary: xs)
  case 0
  then show ?case by simp
next
  case (Suc n)
  then show ?case by (cases xs) (auto simp: take_Cons' take_all_iff split: nat.split)
qed

definition heavier :: "talker \<Rightarrow> talker \<Rightarrow> bool" where
  "heavier a b \<longleftrightarrow> tk_bytes b \<le> tk_bytes a"

lemma ins_talker_set [simp]: "set (ins_talker t xs) = insert t (set xs)"
  by (induction xs) auto

lemma ins_talker_mset [simp]: "mset (ins_talker t xs) = add_mset t (mset xs)"
  by (induction xs) auto

lemma ins_talker_sorted: "sorted_wrt heavier xs \<Longrightarrow> sorted_wrt heavier (ins_talker t xs)"
  by (induction xs) (auto simp: heavier_def)

lemma ins_talker_append_pos:
  "0 < tk_bytes t \<Longrightarrow> ins_talker t (xs @ replicate (Suc k) no_talker @ ys) =
     ins_talker t xs @ replicate (Suc k) no_talker @ ys"
  by (induction xs) (auto simp: no_talker_def not_le)

lemma ins_talker_append_zero: "tk_bytes t = 0 \<Longrightarrow> ins_talker t xs = xs @ [t]"
  by (induction xs) auto

definition counted :: "talker \<Rightarrow> bool" where
  "counted t \<longleftrightarrow> tk_ip t \<noteq> 0 \<and> 0 < tk_bytes t"

lemma top_talkers_fold:
  "top_talkers ts = take 5 (foldl (\<lambda>acc t. if tk_ip t = 0 then acc else ins_talker t acc) (replicate 5 no_talker) ts)
   \<and> length (top_talkers ts) = 5"
proof (induction ts rule: rev_induct)
  case Nil
  then show ?case by (simp add: top_talkers_def MAX_TALKERS_def)
next
  case (snoc t ts)
  let ?acc = "foldl (\<lambda>acc t. if tk_ip t = 0 then acc else ins_talker t acc) (replicate 5 no_talker) ts"
  have "top_talkers (ts @ [t]) = (if tk_ip t = 0 then top_talkers ts else top_insert (top_talkers ts) t)"
    by (simp add: top_talkers_def)
  moreover have ins: "top_insert (top_talkers ts) t = take 5 (ins_talker t (top_talkers ts))"
    by (rule top_insert_ins [OF conjunct2 [OF snoc]])
  moreover have "take 5 (ins_talker t (top_talkers ts)) = take 5 (ins_talker t ?acc)"
    by (simp only: conjunct1 [OF snoc] take_ins_talker)
  moreover have "length (top_insert (top_talkers ts) t) = 5"
    using conjunct2 [OF snoc] ins by simp
  ultimately show ?case
    using conjunct1 [OF snoc] conjunct2 [OF snoc]
    by (cases "tk_ip t = 0") (simp_all only: foldl_append foldl.simps if_True if_False simp_thms)
qed

lemma fold_talkers_split:
  "\<exists>S W. foldl (\<lambda>acc t. if tk_ip t = 0 then acc else ins_talker t acc) (replicate 5 no_talker) ts =
     S @ replicate 5 no_talker @ W \<and> mset S = mset (filter counted ts) \<and> sorted_wrt heavier S"
proof (induction ts rule: rev_induct)
  case Nil
  show ?case by (rule exI [of _ "[]"], rule exI [of _ "[]"]) simp
next
  case (snoc t ts)
  then obtain S W where S: "foldl (\<lambda>acc t. if tk_ip t = 0 then acc else ins_talker t acc) (replicate 5 no_talker) ts =
     S @ replicate 5 no_talker @ W" "mset S = mset (filter counted ts)" "sorted_wrt heavier S" by blast
  consider "tk_ip t = 0" | "tk_ip t \<noteq> 0" "tk_bytes t = 0" | "tk_ip t \<noteq> 0" "0 < tk_bytes t"
    by (metis word_neq_0_conv)
  then show ?case
  proof cases
    case 1
    then show ?thesis using S by (intro exI [of _ S] exI [of _ W]) (simp add: counted_def)
  next
    case 2
    then show ?thesis using S
      by (intro exI [of _ S] exI [of _ "W @ [t]"]) (simp add: counted_def ins_talker_append_zero)
  next
    case 3
    then show ?thesis using S ins_talker_append_pos [of t S 4 W]
      by (intro exI [of _ "ins_talker t S"] exI [of _ W])
        (simp add: counted_def ins_talker_sorted eval_nat_numeral)
  qed
qed

text \<open>C27: the top talkers are the top five: whenever they are refreshed, the table holds the five
  entries with the most bytes among the counted addresses, in descending order, filled up with
  empty entries.\<close>

theorem top_talkers_are_top:
  "\<exists>S. mset S = mset (filter counted ts) \<and> sorted_wrt heavier S \<and>
     top_talkers ts = take 5 (S @ replicate 5 no_talker)"
proof -
  obtain S W where "foldl (\<lambda>acc t. if tk_ip t = 0 then acc else ins_talker t acc) (replicate 5 no_talker) ts =
     S @ replicate 5 no_talker @ W" "mset S = mset (filter counted ts)" "sorted_wrt heavier S"
    using fold_talkers_split by blast
  then show ?thesis using top_talkers_fold [of ts] by (intro exI [of _ S]) simp
qed

text \<open>What one slot of the talker table counts: the first address that hashes to it, and no other.\<close>

definition slot_of :: "pk_event \<Rightarrow> nat" where
  "slot_of e = unat (pk_src_ip e AND 0xFF)"

definition slot_entry :: "nat \<Rightarrow> pk_event list \<Rightarrow> talker" where
  "slot_entry k es =
     (case filter (\<lambda>e. slot_of e = k) es of
        [] \<Rightarrow> no_talker
      | e # _ \<Rightarrow>
          (let mine = filter (\<lambda>x. pk_src_ip x = pk_src_ip e) es
           in \<lparr>tk_ip = pk_src_ip e, tk_bytes = sum_list (map (\<lambda>x. ucast (pk_packet_len x)) mine),
               tk_pkts = of_nat (length mine)\<rparr>))"

lemma slot_of_zero: "pk_src_ip e = 0 \<Longrightarrow> slot_of e = 0"
  by (simp add: slot_of_def)

lemma slot_of_less: "slot_of e < 256"
proof -
  have "pk_src_ip e AND 0xFF \<le> 0xFF" by (rule word_and_le1)
  then show ?thesis by (simp add: slot_of_def word_le_nat_alt)
qed

lemma length_count_talker [simp]: "length (count_talker e ts) = length ts"
  by (simp add: count_talker_def Let_def)

lemma count_talker_slot:
  assumes "length ts = 256" and "0 < k" and "k < 256" and "ts ! k = slot_entry k es"
  shows "count_talker e ts ! k = slot_entry k (es @ [e])"
proof (cases "slot_of e = k")
  case False
  have "slot_entry k (es @ [e]) = slot_entry k es"
  proof (cases "filter (\<lambda>e. slot_of e = k) es")
    case Nil
    then show ?thesis using False by (simp add: slot_entry_def)
  next
    case (Cons x xs)
    then have "x \<in> set (filter (\<lambda>e. slot_of e = k) es)" by simp
    then have "slot_of x = k" by simp
    then have "pk_src_ip e \<noteq> pk_src_ip x" using False by (auto simp: slot_of_def)
    then show ?thesis using False Cons by (simp add: slot_entry_def)
  qed
  then show ?thesis
    using False assms by (simp add: count_talker_def Let_def slot_of_def)
next
  case True
  then have nz: "pk_src_ip e \<noteq> 0" using assms(2) slot_of_zero by fastforce
  have k: "unat (pk_src_ip e AND 0xFF) = k" using True by (simp add: slot_of_def)
  show ?thesis
  proof (cases "filter (\<lambda>e. slot_of e = k) es")
    case Nil
    have "filter (\<lambda>x. pk_src_ip x = pk_src_ip e) es = []"
      using Nil True by (auto simp: filter_empty_conv slot_of_def)
    then show ?thesis
      using Nil True assms k by (simp add: count_talker_def Let_def slot_entry_def no_talker_def)
  next
    case (Cons x xs)
    then have "x \<in> set (filter (\<lambda>e. slot_of e = k) es)" by simp
    then have "slot_of x = k" by simp
    then have x: "pk_src_ip x \<noteq> 0" using assms(2) slot_of_zero by fastforce
    show ?thesis
      using Cons True assms k x
      by (auto simp: count_talker_def Let_def slot_entry_def)
  qed
qed

lemma fold_count_talker:
  assumes "0 < k" and "k < 256"
  shows "fold count_talker es (replicate 256 no_talker) ! k = slot_entry k es \<and>
    length (fold count_talker es (replicate 256 no_talker)) = 256"
proof (induction es rule: rev_induct)
  case Nil
  then show ?case using assms by (simp add: slot_entry_def)
next
  case (snoc e es)
  then show ?case
    using count_talker_slot [OF conjunct2 [OF snoc] assms conjunct1 [OF snoc], of e] by simp
qed

lemma run_talkers:
  "\<not> g_paused st \<Longrightarrow> \<forall>x \<in> set xs. in_bounds (arrived x) \<Longrightarrow> run_steps handle_arrival xs st = Some st' \<Longrightarrow>
   g_talkers st' = fold count_talker (map arrived xs) (g_talkers st)"
proof (induction xs arbitrary: st)
  case Nil
  then show ?case by simp
next
  case (Cons x xs)
  obtain s u now e where x: "x = (s, u, now, e)" by (cases x)
  then have "in_bounds e" using Cons.prems by simp
  with Cons.prems(1) obtain st1 where "pk_handle_event s u now e st = Some st1" "\<not> g_paused st1"
    "g_talkers st1 = count_talker e (g_talkers st)"
    using handle_event_step by blast
  then show ?case using Cons x by simp
qed

text \<open>C26: the talker statistics: after any sequence of events, the entry of a slot other than 0 counts
  all packets and bytes of the first address that fell into the slot, and none of any other address:
  a second address with the same first octet is not counted at all.\<close>

theorem talkers_count_first:
  assumes "\<forall>x \<in> set xs. in_bounds (arrived x)" and "run_steps handle_arrival xs ui_start = Some st'"
    and "0 < k" and "k < 256"
  shows "g_talkers st' ! k = slot_entry k (map arrived xs)"
  using run_talkers [OF ui_start_ok(3) assms(1,2)] fold_count_talker [OF assms(3,4), of "map arrived xs"]
  by (simp add: ui_start_def)

lemma talkers_count_first_witness:
  "\<exists>st'. run_steps handle_arrival
     [(0, 0, 1, pk_blank\<lparr>pk_src_ip := 0x0102030A, pk_packet_len := 60\<rparr>),
      (0, 0, 2, pk_blank\<lparr>pk_src_ip := 0x0908070A, pk_packet_len := 90\<rparr>),
      (0, 0, 3, pk_blank\<lparr>pk_src_ip := 0x0102030A, pk_packet_len := 40\<rparr>)] ui_start = Some st' \<and>
   g_talkers st' ! 10 = \<lparr>tk_ip = 0x0102030A, tk_bytes = 100, tk_pkts = 2\<rparr>"
proof -
  let ?xs = "[(0, 0, 1, pk_blank\<lparr>pk_src_ip := 0x0102030A, pk_packet_len := 60\<rparr>),
      (0, 0, 2, pk_blank\<lparr>pk_src_ip := 0x0908070A, pk_packet_len := 90\<rparr>),
      (0, 0, 3, pk_blank\<lparr>pk_src_ip := 0x0102030A, pk_packet_len := 40\<rparr>)] :: arrival list"
  have g: "\<forall>x \<in> set ?xs. in_bounds (arrived x)" by (simp add: in_bounds_def pk_blank_def)
  obtain st' where r: "run_steps handle_arrival ?xs ui_start = Some st'"
  proof -
    obtain st1 where "pk_handle_event 0 0 1 (pk_blank\<lparr>pk_src_ip := 0x0102030A, pk_packet_len := 60\<rparr>) ui_start = Some st1"
      "\<not> g_paused st1"
      using handle_event_step [OF ui_start_ok(3)] g by force
    moreover obtain st2 where "pk_handle_event 0 0 2 (pk_blank\<lparr>pk_src_ip := 0x0908070A, pk_packet_len := 90\<rparr>) st1 = Some st2"
      "\<not> g_paused st2"
      using handle_event_step [OF calculation(2)] g by force
    moreover obtain st3 where "pk_handle_event 0 0 3 (pk_blank\<lparr>pk_src_ip := 0x0102030A, pk_packet_len := 40\<rparr>) st2 = Some st3"
      using handle_event_step [OF calculation(4)] g by force
    ultimately show ?thesis using that by simp
  qed
  have "g_talkers st' ! 10 = slot_entry 10 (map arrived ?xs)"
    by (rule talkers_count_first [OF g r]) simp_all
  also have "\<dots> = \<lparr>tk_ip = 0x0102030A, tk_bytes = 100, tk_pkts = 2\<rparr>"
    by (simp add: slot_entry_def slot_of_def)
  finally show ?thesis using r by blast
qed

section \<open>Selection and scrolling\<close>

lemma clamp_view_bounds:
  assumes "2 \<le> rows" and "0 \<le> g_selected st" and "0 \<le> g_scroll_top st"
  shows "0 \<le> g_scroll_top (clamp_view rows st)" "0 \<le> g_selected (clamp_view rows st)"
    "visible st \<noteq> [] \<Longrightarrow> g_selected (clamp_view rows st) < int (length (visible st))"
    "g_scroll_top (clamp_view rows st) \<le> g_selected (clamp_view rows st)"
    "g_selected (clamp_view rows st) < g_scroll_top (clamp_view rows st) + (rows - 1)"
  using assms by (auto simp: clamp_view_def Let_def)

text \<open>C28: the selected packet is on the screen: drawing the list in a window of at least two
  rows reads inside its arrays, and behind it the selection is a visible packet, if there is one, and its row lies in the window; the
  packets drawn are consecutive ones of the filtered view.\<close>

theorem pk_selection_visible:
  assumes "2 \<le> rows" and "0 \<le> g_selected st" and "0 \<le> g_scroll_top st"
  shows "\<exists>st' out. draw_packet_list rows cols st = Some (st', out) \<and>
    visible st' = visible st \<and> 0 \<le> g_scroll_top st' \<and> 0 \<le> g_selected st' \<and>
    (visible st \<noteq> [] \<longrightarrow> g_selected st' < int (length (visible st)) \<and>
       g_scroll_top st' \<le> g_selected st' \<and> g_selected st' < g_scroll_top st' + (rows - 1) \<and>
       out ! nat (g_selected st' - g_scroll_top st') =
         packet_row cols (g_selected st') (g_selected st')
           (pkt_ring st ! (visible st ! nat (g_selected st'))) \<and>
       fst (out ! nat (g_selected st' - g_scroll_top st')) = COL_SELECTED)"
proof -
  define st' where st': "st' = clamp_view rows st"
  have v: "visible st' = visible st" "pkt_ring st' = pkt_ring st"
    by (simp_all add: st' clamp_view_def visible_def Let_def)
  have range: "0 \<le> g_scroll_top st'" "0 \<le> g_selected st'"
    "visible st \<noteq> [] \<Longrightarrow> g_selected st' < int (length (visible st))"
    "g_scroll_top st' \<le> g_selected st'" "g_selected st' < g_scroll_top st' + (rows - 1)"
    using clamp_view_bounds [OF assms(1-3)] by (simp_all add: st')
  define out where out: "out = map (\<lambda>vi. packet_row cols (g_selected st') (int vi) (pkt_ring st ! (visible st ! vi)))
      [nat (g_scroll_top st')..<min (length (visible st)) (nat (g_scroll_top st') + nat (rows - 1))]"
  have drawn: "draw_packet_list rows cols st = Some (st', out)"
    using range(1) v by (simp add: draw_packet_list_def Let_def out flip: st')
  have "out ! nat (g_selected st' - g_scroll_top st') =
      packet_row cols (g_selected st') (g_selected st') (pkt_ring st ! (visible st ! nat (g_selected st')))"
    if "visible st \<noteq> []"
  proof -
    let ?k = "nat (g_selected st' - g_scroll_top st')"
    have k: "nat (g_scroll_top st') + ?k = nat (g_selected st')"
      using range by (simp flip: nat_add_distrib)
    have "nat (g_selected st') < min (length (visible st)) (nat (g_scroll_top st') + nat (rows - 1))"
      using range that assms(1) by (simp flip: nat_add_distrib)
    then have "nat (g_scroll_top st') + ?k < min (length (visible st)) (nat (g_scroll_top st') + nat (rows - 1))"
      unfolding k .
    then show ?thesis unfolding out using k range(2) by (simp add: nth_upt less_diff_conv add.commute)
  qed
  then show ?thesis using drawn v range by (simp add: packet_row_def Let_def)
qed

lemma pk_selection_visible_witness:
  "\<exists>st' out. draw_packet_list 4 80 (ring_store pk_blank ui_start) = Some (st', out) \<and> fst (out ! 0) = COL_SELECTED"
proof -
  let ?st = "ring_store pk_blank ui_start"
  have z: "g_selected ?st = 0" "g_scroll_top ?st = 0" by (simp_all add: ring_store_def ui_start_def)
  have "visible ?st = [0]"
    by (simp add: visible_def ring_store_def ui_start_def MAX_PACKETS_def ring_index_def event_matches_def
        no_filter_def)
  then show ?thesis
    using pk_selection_visible [of 4 ?st 80] z by auto
qed

section \<open>The hex dump\<close>

text \<open>A row of the dump, for \<open>n\<close> bytes per row.\<close>

definition hex_line :: "nat \<Rightarrow> nat \<Rightarrow> u8 list \<Rightarrow> string" where
  "hex_line n off bytes = padz 4 (uhex off) @ ''  '' @
    padr (n * 3) (concat (map (\<lambda>b. padz 2 (uhex (unat b)) @ '' '') bytes)) @ ''  '' @ map printable bytes"

lemma hex_row_some:
  assumes "in_bounds e" and "n \<le> 16" and "off < unat (pk_cap_len e)"
  shows "hex_row n off e =
    Some (hex_line n off (slice off (min n (unat (pk_cap_len e) - off)) (pk_packet e)))"
proof -
  let ?k = "min n (unat (pk_cap_len e) - off)"
  let ?bs = "slice off ?k (pk_packet e)"
  have fit: "off + ?k \<le> length (pk_packet e)"
    using assms by (auto simp: in_bounds_def)
  then have len: "length ?bs = ?k" by simp
  have k: "?k \<le> 16" using assms(2) by simp
  have st: "store_all 0 (map printable ?bs) (replicate 20 NUL) = Some (map printable ?bs @ replicate (20 - ?k) NUL)"
    using store_all_prefix [of "map printable ?bs" "replicate 20 NUL"] len k by simp
  have set: "arr_set (map printable ?bs @ replicate (20 - ?k) NUL) ?k NUL =
      Some (map printable ?bs @ replicate (20 - ?k) NUL)"
  proof -
    have "(map printable ?bs @ replicate (20 - ?k) NUL) ! ?k = NUL" using len k by (simp add: nth_append)
    then show ?thesis
      using len k list_update_id [of "map printable ?bs @ replicate (20 - ?k) NUL" ?k]
      by (simp add: arr_set_def)
  qed
  have nz: "NUL \<notin> set (map printable ?bs)"
    by (auto simp: printable_def NUL_chr_of split: if_splits)
  have "length (concat (map (\<lambda>b. padz 2 (uhex (unat b)) @ '' '') bs)) = 3 * length bs" for bs :: "u8 list"
    by (induction bs) (simp_all add: hex_byte)
  then show ?thesis
    using fit st set nz len k by (simp add: hex_row_def hex_line_def Let_def cstr_append not_less del: map_map)
qed

definition dump_bytes :: "nat \<Rightarrow> pk_event \<Rightarrow> nat \<Rightarrow> u8 list" where
  "dump_bytes n e off = slice off (min n (unat (pk_cap_len e) - off)) (pk_packet e)"

lemma hex_rows_some:
  assumes "in_bounds e" and "n \<le> 16" and "0 < n"
  shows "\<exists>m. hex_rows n rows row off e =
      Some (map (\<lambda>k. (row + int k, hex_line n (off + k * n) (dump_bytes n e (off + k * n)))) [0..<m]) \<and>
    (\<forall>k < m. off + k * n < unat (pk_cap_len e) \<and> row + int k < rows - 1) \<and>
    (unat (pk_cap_len e) \<le> off + m * n \<or> rows - 1 \<le> row + int m)"
proof (induction "nat (rows - row)" arbitrary: row off)
  case 0
  then show ?case by (intro exI [of _ 0]) (simp add: hex_rows.simps)
next
  case (Suc d)
  show ?case
  proof (cases "off < unat (pk_cap_len e) \<and> row < rows - 1")
    case False
    then show ?thesis by (intro exI [of _ 0]) (auto simp: hex_rows.simps)
  next
    case True
    have "d = nat (rows - (row + 1))" using Suc.hyps(2) by simp
    from Suc.hyps(1) [OF this, of "off + n"] obtain m where m:
      "hex_rows n rows (row + 1) (off + n) e = Some (map (\<lambda>k. (row + 1 + int k,
         hex_line n (off + n + k * n) (dump_bytes n e (off + n + k * n)))) [0..<m])"
      "\<forall>k < m. off + n + k * n < unat (pk_cap_len e) \<and> row + 1 + int k < rows - 1"
      "unat (pk_cap_len e) \<le> off + n + m * n \<or> rows - 1 \<le> row + 1 + int m"
      by blast
    have "hex_rows n rows row off e = Some (map (\<lambda>k. (row + int k,
        hex_line n (off + k * n) (dump_bytes n e (off + k * n)))) [0..<Suc m])"
      using True m(1) hex_row_some [OF assms(1,2), of off]
      by (simp add: hex_rows.simps [of n rows row off e] dump_bytes_def upt_conv_Cons ac_simps
          flip: map_Suc_upt del: upt_Suc)
    moreover have "off + k * n < unat (pk_cap_len e) \<and> row + int k < rows - 1" if "k < Suc m" for k
      using True m(2) that by (cases k) (auto simp: ac_simps)
    ultimately show ?thesis using m(3) by (intro exI [of _ "Suc m"]) (auto simp: ac_simps)
  qed
qed

lemma bytes_per_row_bounds: "8 \<le> bytes_per_row cols" "bytes_per_row cols \<le> 16"
  by (auto simp: bytes_per_row_def Let_def)

text \<open>C25: the hex dump of the detail panel: for every window size and every event the kernel side can
  send, building the rows reads no byte outside the packet array and stores none outside the two
  row buffers; row \<open>k\<close> shows the captured bytes from \<open>k\<close> times the row length on, in hexadecimal
  and as text, and the dump ends only at the end of the capture or of the window.\<close>

theorem pk_hex_dump:
  assumes "in_bounds e"
  shows "\<exists>m. let n = bytes_per_row cols; cap = unat (pk_cap_len e) in
    hex_rows n rows row 0 e = Some (map (\<lambda>k. (row + int k,
      hex_line n (k * n) (slice (k * n) (min n (cap - k * n)) (pk_packet e)))) [0..<m]) \<and>
    (\<forall>k < m. k * n < cap \<and> row + int k < rows - 1) \<and> (cap \<le> m * n \<or> rows - 1 \<le> row + int m)"
proof -
  have "0 < bytes_per_row cols" using bytes_per_row_bounds(1) [of cols] by linarith
  from hex_rows_some [OF assms bytes_per_row_bounds(2) this, of rows row 0] show ?thesis
    by (simp add: Let_def dump_bytes_def)
qed

lemma pk_hex_dump_witness:
  "\<exists>m. hex_rows (bytes_per_row 60) 20 12 0 (pk_blank\<lparr>pk_cap_len := 32\<rparr>) = Some (map (\<lambda>k. (12 + int k,
      hex_line 16 (k * 16) (slice (k * 16) (min 16 (32 - k * 16)) (replicate 256 0)))) [0..<m]) \<and> m = 2"
proof -
  have b: "in_bounds (pk_blank\<lparr>pk_cap_len := 32\<rparr>)" by (simp add: in_bounds_def pk_blank_def)
  have n: "bytes_per_row 60 = 16" by (simp add: bytes_per_row_def)
  obtain m where m: "hex_rows (bytes_per_row 60) 20 12 0 (pk_blank\<lparr>pk_cap_len := 32\<rparr>) = Some (map (\<lambda>k. (12 + int k,
      hex_line 16 (k * 16) (slice (k * 16) (min 16 (32 - k * 16)) (replicate 256 0)))) [0..<m])"
    "\<forall>k < m. k * 16 < 32 \<and> 12 + int k < 20 - 1" "32 \<le> m * 16 \<or> 20 - 1 \<le> 12 + int m"
    using pk_hex_dump [OF b, of 60 20 12] unfolding n by (auto simp: Let_def pk_blank_def)
  have "m = 2"
  proof (rule ccontr)
    assume "m \<noteq> 2"
    then have "2 < m" using m(3) by auto
    then show False using m(2) by auto
  qed
  then show ?thesis using m(1) by blast
qed

end
