(* ===== verification/Pksniff_Loop.thy ===== *)
theory Pksniff_Loop
  imports Pksniff_View
begin

text \<open>
  The main loop of \<open>pksniff\<close>: delivery of the captured packets, the keys, and the redrawing of all
  panels, as a state machine whose reachable states keep the invariant of the user interface.
\<close>

section \<open>The remaining panels\<close>

text \<open>Characters outside ASCII are their bytes in UTF-8; a left-justified field of width
  \<open>cols\<close>.\<close>

definition title_row :: "string \<Rightarrow> bool \<Rightarrow> int \<Rightarrow> string" where
  "title_row ifname paused cols =
     padr (nat \<bar>cols\<bar>) (take 255
       ('' pksniff '' @ [CHR 0xE2, CHR 0x80, CHR 0x94] @ '' '' @ ifname @
        (if paused then ''  *** PAUSED ***'' else []) @
        ''  [F: filter  D: detail  P: pause  S: save  Q: quit]''))"

text \<open>The filter bar: its text and, while the filter is edited, the column of the cursor.\<close>

definition filter_bar :: "int \<Rightarrow> ui_state \<Rightarrow> string \<times> nat option" where
  "filter_bar cols st =
     (if g_filter_mode st
      then ('' Filter> '' @ padr (nat \<bar>cols - 10\<bar>) (cstr (g_filter_buf st)), Some (9 + g_filter_cursor st))
      else (let summary = filter_summary (g_filter st)
            in ('' [Filter: '' @ padr 20 (if summary \<noteq> [] then summary else ''none'') @
                '']  Syntax: ip:<addr> port:<n> proto:<tcp|udp|icmp> app:<dns|http|tls> dir:<in|out>'', None)))"

text \<open>The rows of the statistics panel; \<open>rate_row\<close> is what \<open>printf\<close> makes of the two rates.\<close>

definition stats_rows :: "(u64 \<Rightarrow> u64 \<Rightarrow> string) \<Rightarrow> ui_state \<Rightarrow> string list" where
  "stats_rows rate_row st =
     [''[ Statistics ]'',
      ''Total packets: '' @ padr 10 (dec32 (g_total_pkts st)) @ ''  Total bytes: '' @
        padr 12 (dec32 (g_total_bytes st)),
      rate_row (g_pps st) (g_bps st),
      ''Top talkers:''] @ talker_rows st"

definition status_row :: "string option \<Rightarrow> int \<Rightarrow> string" where
  "status_row msg cols =
     padr (nat \<bar>cols\<bar>)
       (case msg of
          Some s \<Rightarrow> s
        | None \<Rightarrow> '' '' @ [CHR 0xE2, CHR 0x86, CHR 0x91, CHR 0xE2, CHR 0x86, CHR 0x93] @
            '':scroll  Enter:detail  F:filter  P:pause  S:save pcap  R:reset  Q:quit'')"

definition filter_help :: string where
  "filter_help =
     ''Filter syntax: ip:<addr> port:<n> proto:<tcp|udp|icmp> app:<dns|http|tls> dir:<in|out>  Enter:apply  Esc:cancel''"

section \<open>Windows\<close>

text \<open>The sizes \<open>layout_windows\<close> gave to the windows: rows and columns of the list, columns of the
  detail panel if it exists, and columns of the screen.\<close>

record ui_windows =
  list_rows :: int
  list_cols :: int
  detail_cols :: "int option"
  screen_cols :: int

definition windows_of :: "int \<times> int \<Rightarrow> bool \<Rightarrow> ui_windows" where
  "windows_of term detail =
     (let (rows, cols) = term; (lr, lc, dc) = layout_windows rows cols detail
      in \<lparr>list_rows = lr, list_cols = lc, detail_cols = (if detail then Some dc else None),
          screen_cols = cols\<rparr>)"

text \<open>\<open>redraw_all\<close>: the new state and the text of all panels; \<open>None\<close> is an access outside an
  array.\<close>

type_synonym panels =
  "string \<times> (string \<times> nat option) \<times> (nat \<times> string) list \<times> (int \<times> string) list \<times> string list \<times> string"

definition redraw_all ::
  "string \<Rightarrow> (u64 \<Rightarrow> u64 \<Rightarrow> string) \<Rightarrow> ui_windows \<Rightarrow> ui_state \<Rightarrow> (ui_state \<times> panels) option" where
  "redraw_all ifname rate_row w st0 =
     Option.bind (draw_packet_list (list_rows w) (list_cols w) st0) (\<lambda>(st, packets).
        map_option (\<lambda>detail.
           (st, title_row ifname (g_paused st0) (screen_cols w), filter_bar (screen_cols w) st0, packets,
            detail, stats_rows rate_row st,
            status_row (if g_filter_mode st then Some filter_help else None) (screen_cols w)))
           (case (g_detail_mode st, detail_cols w) of
              (True, Some cols) \<Rightarrow> draw_detail (list_rows w) cols st
            | _ \<Rightarrow> Some []))"

section \<open>One iteration\<close>

text \<open>The input of an iteration: the packets that \<open>ring_buffer__poll\<close> delivers and its result,
  the key if there is one, the size of the terminal, and for the key \<open>S\<close> whether the file could be
  created and the times of day of its records.\<close>

record ui_input =
  in_packets :: "arrival list"
  in_result :: int
  in_key :: "int option"
  in_term :: "int \<times> int"
  in_opened :: bool
  in_clock :: "nat \<Rightarrow> nat \<times> nat"

definition EINTR :: int where "EINTR = 4"

definition poll_fails :: "ui_input \<Rightarrow> bool" where
  "poll_fails inp \<longleftrightarrow> in_result inp < 0 \<and> in_result inp \<noteq> - EINTR"

type_synonym ui_loop = "ui_state \<times> ui_windows"

definition handle_key :: "ui_input \<Rightarrow> ui_loop \<Rightarrow> ui_loop option" where
  "handle_key inp s =
     (let (st, w) = s in
      case in_key inp of
        None \<Rightarrow> Some (st, w)
      | Some ch \<Rightarrow>
          if g_filter_mode st then map_option (\<lambda>st. (st, w)) (handle_input_filter ch st)
          else map_option (\<lambda>(st, eff).
                 (st, if eff = Relayout then windows_of (in_term inp) (g_detail_mode st) else w))
               (handle_input_normal ch (list_rows w) (in_opened inp) (in_clock inp) st))"

text \<open>The body of the loop; \<open>None\<close> is an access outside an array. An error of the poll leaves the
  loop before the key is read.\<close>

definition ui_iteration ::
  "string \<Rightarrow> (u64 \<Rightarrow> u64 \<Rightarrow> string) \<Rightarrow> ui_input \<Rightarrow> ui_loop \<Rightarrow> ui_loop option" where
  "ui_iteration ifname rate_row inp s =
     Option.bind (run_steps handle_arrival (in_packets inp) (fst s)) (\<lambda>st.
       if poll_fails inp then Some (st, snd s)
       else Option.bind (handle_key inp (st, snd s)) (\<lambda>(st, w).
         map_option (\<lambda>(st, _). (st, w)) (redraw_all ifname rate_row w st)))"

section \<open>Reachable states\<close>

text \<open>What the kernel side sends; the windows have the sizes of some terminal.\<close>

definition input_ok :: "ui_input \<Rightarrow> bool" where
  "input_ok inp \<longleftrightarrow> (\<forall>x \<in> set (in_packets inp). in_bounds (arrived x))"

inductive ui_reach :: "string \<Rightarrow> (u64 \<Rightarrow> u64 \<Rightarrow> string) \<Rightarrow> ui_loop \<Rightarrow> bool"
  for ifname :: string and rate_row :: "u64 \<Rightarrow> u64 \<Rightarrow> string" where
  startup: "redraw_all ifname rate_row (windows_of term False) (ui_start\<lparr>pcap_out := out\<rparr>) = Some (st, ps) \<Longrightarrow>
    ui_reach ifname rate_row (st, windows_of term False)"
| iterate: "ui_reach ifname rate_row s \<Longrightarrow> g_running (fst s) \<Longrightarrow> input_ok inp \<Longrightarrow>
    ui_iteration ifname rate_row inp s = Some s' \<Longrightarrow> ui_reach ifname rate_row s'"

text \<open>The invariant of the user interface: the ring holds well-formed packets, the filter line is
  terminated and its cursor in range, the filter is well formed, the tables have their sizes.\<close>

definition ui_inv :: "ui_state \<Rightarrow> bool" where
  "ui_inv st \<longleftrightarrow> ring_ok st \<and> (\<forall>e \<in> set (captured st). in_bounds e) \<and>
     edit_inv (g_filter_buf st, g_filter_cursor st) \<and> filter_wf (g_filter st) \<and>
     0 \<le> g_selected st \<and> 0 \<le> g_scroll_top st \<and> length (g_talkers st) = 256 \<and> length (g_top st) = 5"

text \<open>The parts of the state the invariant reads.\<close>

lemma ui_inv_cong:
  assumes "pkt_ring st' = pkt_ring st" "pkt_head st' = pkt_head st" "pkt_count st' = pkt_count st"
    "g_talkers st' = g_talkers st" "g_top st' = g_top st"
    and "edit_inv (g_filter_buf st', g_filter_cursor st')" "filter_wf (g_filter st')"
    and "0 \<le> g_selected st'" "0 \<le> g_scroll_top st'" and "ui_inv st"
  shows "ui_inv st'"
  using assms captured_cong [OF assms(1-3)] by (simp add: ui_inv_def)

lemma ui_inv_parts:
  assumes "ui_inv st"
  shows "edit_inv (g_filter_buf st, g_filter_cursor st)" "filter_wf (g_filter st)" "0 \<le> g_selected st"
    "0 \<le> g_scroll_top st"
  using assms by (simp_all add: ui_inv_def)

lemma visible_in_bounds:
  assumes "ui_inv st" and "k < length (visible st)"
  shows "in_bounds (pkt_ring st ! (visible st ! k))"
proof -
  have "map ((!) (pkt_ring st)) (visible st) ! k \<in> set (map ((!) (pkt_ring st)) (visible st))"
    using assms(2) by (intro nth_mem) simp
  then show ?thesis
    using assms by (simp add: visible_events ui_inv_def) (simp flip: visible_events)
qed

subsection \<open>Packets\<close>

lemma update_stats_top: "length (g_top st) = 5 \<Longrightarrow> length (g_top (update_stats now e st)) = 5"
  by (simp add: update_stats_def Let_def conjunct2 [OF top_talkers_fold])

lemma update_stats_view [simp]:
  "g_filter_buf (update_stats now e st) = g_filter_buf st"
  "g_filter_cursor (update_stats now e st) = g_filter_cursor st"
  "g_selected (update_stats now e st) = g_selected st"
  "g_scroll_top (update_stats now e st) = g_scroll_top st"
  by (simp_all add: update_stats_def Let_def)

lemma arrival_keeps_inv:
  assumes "ui_inv st" and "in_bounds (arrived x)"
  shows "\<exists>st'. handle_arrival x st = Some st' \<and> ui_inv st'"
proof -
  obtain s u now e where x: "x = (s, u, now, e)" by (cases x)
  show ?thesis
  proof (cases "g_paused st")
    case True
    then show ?thesis using assms by (simp add: x pk_handle_event_def)
  next
    case False
    obtain r where r: "pcap_record s u (pk_cap_len e) (pk_packet_len e) (pk_packet e) = Some r"
      using pcap_record_in_bounds assms(2) x by fastforce
    define st1 where "st1 = st\<lparr>pcap_out := map_option (\<lambda>bs. bs @ r) (pcap_out st)\<rparr>"
    let ?st = "update_stats now e (ring_store e st1)"
    have st1: "ui_inv st1" by (rule ui_inv_cong [OF _ _ _ _ _ _ _ _ _ assms(1)])
        (use assms(1) in \<open>simp_all add: st1_def ui_inv_def\<close>)
    have "pk_handle_event s u now e st = Some ?st"
      using False r by (cases "pcap_out st") (simp_all add: pk_handle_event_def st1_def)
    moreover have "captured ?st = captured (ring_store e st1) \<and> ring_ok ?st = ring_ok (ring_store e st1)"
      by (rule captured_cong) (simp_all add: ring_store_def)
    moreover have "set (captured (ring_store e st1)) \<subseteq> insert e (set (captured st1))"
      using ring_store_contents [of st1 e] st1 set_drop_subset
      by (fastforce simp: ui_inv_def last_n_def)
    moreover have "length (g_top ?st) = 5"
      using st1 by (intro update_stats_top) (simp add: ring_store_def ui_inv_def)
    ultimately show ?thesis
      using st1 assms(2) x ring_store_ok [of st1 e]
      by (auto simp: ui_inv_def) (auto simp: ring_store_def)
  qed
qed

lemma arrivals_keep_inv:
  "ui_inv st \<Longrightarrow> \<forall>x \<in> set xs. in_bounds (arrived x) \<Longrightarrow>
   \<exists>st'. run_steps handle_arrival xs st = Some st' \<and> ui_inv st'"
proof (induction xs arbitrary: st)
  case Nil
  then show ?case by simp
next
  case (Cons x xs)
  then obtain st1 where "handle_arrival x st = Some st1" "ui_inv st1"
    using arrival_keeps_inv [of st x] by auto
  then show ?case using Cons by simp
qed

subsection \<open>Keys\<close>

lemma filter_key_keeps_inv:
  assumes "ui_inv st"
  shows "\<exists>st'. handle_input_filter ch st = Some st' \<and> ui_inv st'"
proof -
  note parts = ui_inv_parts [OF assms]
  consider "ch = 27" | "ch \<noteq> 27" "ch = 10 \<or> ch = KEY_ENTER" | "ch \<noteq> 27" "\<not> (ch = 10 \<or> ch = KEY_ENTER)"
    by blast
  then show ?thesis
  proof cases
    case 1
    have "ui_inv (st\<lparr>g_filter_mode := False\<rparr>)"
      by (rule ui_inv_cong [OF _ _ _ _ _ _ _ _ _ assms]) (simp_all add: parts)
    then show ?thesis using 1 by (simp add: handle_input_filter_def)
  next
    case 2
    have "ui_inv (st\<lparr>g_filter := parse_filter_str (cstr (g_filter_buf st)), g_selected := 0,
        g_scroll_top := 0, g_filter_mode := False\<rparr>)"
      by (rule ui_inv_cong [OF _ _ _ _ _ _ _ _ _ assms]) (simp_all add: parts parse_filter_wf)
    then show ?thesis using 2 by (simp add: handle_input_filter_def)
  next
    case 3
    obtain buf cursor where b: "edit_filter ch (g_filter_buf st, g_filter_cursor st) = Some (buf, cursor)"
      "edit_inv (buf, cursor)"
      using edit_sim [OF parts(1), of ch] by auto
    have "ui_inv (st\<lparr>g_filter_buf := buf, g_filter_cursor := cursor\<rparr>)"
      by (rule ui_inv_cong [OF _ _ _ _ _ _ _ _ _ assms]) (simp_all add: parts b)
    then show ?thesis using 3 b by (simp add: handle_input_filter_def)
  qed
qed

lemma save_in_bounds:
  assumes "ui_inv st"
  shows "\<exists>bs. save_filtered_pcap clock st = Some bs"
proof -
  have "\<forall>e \<in> set (map ((!) (pkt_ring st)) (visible st)). in_bounds e"
    using assms by (auto simp: visible_events ui_inv_def)
  then show ?thesis
    using save_records_list [of "map ((!) (pkt_ring st)) (visible st)" clock 0]
    by (auto simp: save_filtered_pcap_def)
qed

text \<open>A key changes at most these parts.\<close>

lemma normal_key_frame:
  assumes "handle_input_normal ch page opened clock st = Some (st', eff)" and "2 \<le> page" and "ui_inv st"
  shows "ui_inv st'"
proof -
  note parts = ui_inv_parts [OF assms(3)]
  have "edit_inv (cstr (g_filter_buf st) @ replicate (128 - length (cstr (g_filter_buf st))) NUL,
      length (cstr (g_filter_buf st)))"
    using parts(1) length_cstr_less [of "g_filter_buf st"]
    by (auto simp: edit_inv_def cstr_append cstr_id)
  moreover have "edit_inv ((g_filter_buf st)[0 := NUL], 0)"
    using parts(1) by (auto simp: edit_inv_def set_update_memI)
  ultimately have
    "pkt_ring st' = pkt_ring st \<and> pkt_head st' = pkt_head st \<and> pkt_count st' = pkt_count st \<and>
     g_talkers st' = g_talkers st \<and> g_top st' = g_top st \<and> 0 \<le> g_selected st' \<and>
     0 \<le> g_scroll_top st' \<and> filter_wf (g_filter st') \<and> edit_inv (g_filter_buf st', g_filter_cursor st')"
    using assms(1,2) parts no_filter_wf
    by (auto simp: handle_input_normal_def Let_def split: if_splits)
  then show ?thesis using ui_inv_cong [OF _ _ _ _ _ _ _ _ _ assms(3), of st'] by simp
qed

lemma normal_key_total:
  assumes "ui_inv st"
  shows "\<exists>st' eff. handle_input_normal ch page opened clock st = Some (st', eff)"
proof -
  obtain bs where "save_filtered_pcap clock st = Some bs" using save_in_bounds [OF assms] by blast
  then show ?thesis by (simp add: handle_input_normal_def Let_def)
qed

lemma windows_of_rows: "4 \<le> list_rows (windows_of term detail)"
  by (cases "term") (auto simp: windows_of_def layout_windows_def Let_def)

lemma key_keeps_inv:
  assumes "ui_inv st" and "4 \<le> list_rows w"
  shows "\<exists>st' w'. handle_key inp (st, w) = Some (st', w') \<and> ui_inv st' \<and> 4 \<le> list_rows w'"
proof (cases "in_key inp")
  case None
  then show ?thesis using assms by (simp add: handle_key_def)
next
  case (Some ch)
  obtain st1 where f: "handle_input_filter ch st = Some st1" "ui_inv st1"
    using filter_key_keeps_inv [OF assms(1)] by blast
  obtain st2 eff where n: "handle_input_normal ch (list_rows w) (in_opened inp) (in_clock inp) st = Some (st2, eff)"
    using normal_key_total [OF assms(1)] by blast
  moreover have "ui_inv st2" using normal_key_frame [OF n] assms by simp
  ultimately show ?thesis
    using f Some assms(2) windows_of_rows by (auto simp: handle_key_def)
qed

subsection \<open>Drawing\<close>

lemma event_detail_total: "in_bounds e \<Longrightarrow> \<exists>d. event_detail rows cols e = Some d"
  using hex_rows_some [of e "bytes_per_row cols" rows] bytes_per_row_bounds [of cols]
  by (fastforce simp: event_detail_def Let_def)

lemma draw_detail_total: "ui_inv st \<Longrightarrow> \<exists>d. draw_detail rows cols st = Some d"
  using visible_in_bounds [of st "nat (g_selected st)"] event_detail_total
  by (auto simp: draw_detail_def)

lemma draw_list_clamps:
  "ui_inv (clamp_view rows st) \<Longrightarrow> \<exists>out. draw_packet_list rows cols st = Some (clamp_view rows st, out)"
  using ui_inv_parts [of "clamp_view rows st"] by (simp add: draw_packet_list_def Let_def)

lemma clamp_view_inv:
  assumes "ui_inv st" and "2 \<le> rows"
  shows "ui_inv (clamp_view rows st)"
  by (rule ui_inv_cong [OF _ _ _ _ _ _ _ _ _ assms(1)])
    (use assms clamp_view_bounds [of rows st] ui_inv_parts [OF assms(1)] in \<open>simp_all add: clamp_view_def Let_def\<close>)

lemma redraw_keeps_inv:
  assumes "ui_inv st" and "4 \<le> list_rows w"
  shows "\<exists>ps. redraw_all ifname rate_row w st = Some (clamp_view (list_rows w) st, ps) \<and>
    ui_inv (clamp_view (list_rows w) st)"
proof -
  have inv: "ui_inv (clamp_view (list_rows w) st)" using assms by (intro clamp_view_inv) simp_all
  then show ?thesis
    using draw_detail_total [OF inv] draw_list_clamps [OF inv, of "list_cols w"]
    by (auto simp: redraw_all_def split: bool.split option.split)
qed

subsection \<open>The loop\<close>

lemma iteration_keeps_inv:
  assumes "ui_inv (fst s)" and "4 \<le> list_rows (snd s)" and "input_ok inp"
  shows "\<exists>st w. ui_iteration ifname rate_row inp s = Some (st, w) \<and> ui_inv st \<and> 4 \<le> list_rows w \<and>
    (\<not> poll_fails inp \<longrightarrow> (\<exists>st0. st = clamp_view (list_rows w) st0 \<and> ui_inv st0))"
proof -
  obtain st1 where st1: "run_steps handle_arrival (in_packets inp) (fst s) = Some st1" "ui_inv st1"
    using arrivals_keep_inv [OF assms(1)] assms(3) by (auto simp: input_ok_def)
  obtain st2 w where k: "handle_key inp (st1, snd s) = Some (st2, w)" "ui_inv st2" "4 \<le> list_rows w"
    using key_keeps_inv [OF st1(2) assms(2)] by blast
  obtain ps where "redraw_all ifname rate_row w st2 = Some (clamp_view (list_rows w) st2, ps)"
    "ui_inv (clamp_view (list_rows w) st2)"
    using redraw_keeps_inv [OF k(2,3)] by blast
  then show ?thesis using st1 k assms(2) by (auto simp: ui_iteration_def)
qed

lemma ui_start_inv: "ui_inv (ui_start\<lparr>pcap_out := out\<rparr>)"
  by (simp add: ui_inv_def ui_start_def ring_ok_def captured_def edit_inv_def no_filter_wf)

lemma reach_inv: "ui_reach ifname rate_row s \<Longrightarrow> ui_inv (fst s) \<and> 4 \<le> list_rows (snd s)"
proof (induction rule: ui_reach.induct)
  case (startup "term" out st ps)
  then show ?case
    using redraw_keeps_inv [OF ui_start_inv windows_of_rows, of ifname rate_row "term" False out]
      windows_of_rows [of "term" False] by auto
next
  case (iterate s inp s')
  then show ?case using iteration_keeps_inv [of s inp ifname rate_row] by auto
qed

lemma visible_clamp [simp]: "visible (clamp_view rows st) = visible st"
  by (simp add: visible_def clamp_view_def Let_def)

text \<open>C2: the user interface never leaves its arrays and never loses the selection: in every
  state the main loop can reach, whatever packets, keys and terminal sizes it sees, the ring and the
  filter line are well formed and the next iteration completes without an access outside an array;
  behind it, if any packet is visible, the selected one is among them and inside the list window.\<close>

theorem pk_ui_safe:
  assumes "ui_reach ifname rate_row s" and "input_ok inp"
  shows "length (pkt_ring (fst s)) = 8192 \<and> pkt_head (fst s) < 8192 \<and> pkt_count (fst s) \<le> 8192 \<and>
    length (g_filter_buf (fst s)) = 128 \<and> NUL \<in> set (g_filter_buf (fst s)) \<and>
    g_filter_cursor (fst s) \<le> length (cstr (g_filter_buf (fst s))) \<and>
    (\<exists>st w. ui_iteration ifname rate_row inp s = Some (st, w) \<and>
       (\<not> poll_fails inp \<and> visible st \<noteq> [] \<longrightarrow>
          0 \<le> g_scroll_top st \<and> g_scroll_top st \<le> g_selected st \<and>
          g_selected st < int (length (visible st)) \<and>
          g_selected st < g_scroll_top st + (list_rows w - 1)))"
proof -
  note inv = reach_inv [OF assms(1)]
  obtain st w where r: "ui_iteration ifname rate_row inp s = Some (st, w)" "4 \<le> list_rows w"
    "\<not> poll_fails inp \<longrightarrow> (\<exists>st0. st = clamp_view (list_rows w) st0 \<and> ui_inv st0)"
    using iteration_keeps_inv [OF conjunct1 [OF inv] conjunct2 [OF inv] assms(2)] by blast
  have "0 \<le> g_scroll_top st \<and> g_scroll_top st \<le> g_selected st \<and>
      g_selected st < int (length (visible st)) \<and> g_selected st < g_scroll_top st + (list_rows w - 1)"
    if v: "\<not> poll_fails inp" "visible st \<noteq> []"
  proof -
    obtain st0 where st0: "st = clamp_view (list_rows w) st0" "ui_inv st0" using r(3) v(1) by blast
    have "2 \<le> list_rows w" using r(2) by simp
    from clamp_view_bounds [OF this ui_inv_parts(3,4) [OF st0(2)]] show ?thesis
      using v(2) by (simp add: st0(1))
  qed
  then show ?thesis using inv r(1) by (simp add: ui_inv_def ring_ok_def edit_inv_def)
qed

definition ui_sample_input :: ui_input where
  "ui_sample_input = \<lparr>in_packets = [(0, 0, 7, pk_blank)], in_result = 1, in_key = Some 102,
     in_term = (24, 80), in_opened = False, in_clock = (\<lambda>_. (0, 0))\<rparr>"

lemma ui_sample_reach:
  "\<exists>s. ui_reach ''wlan0'' (\<lambda>_ _. []) s \<and> g_running (fst s)"
proof -
  obtain ps where "redraw_all ''wlan0'' (\<lambda>_ _. []) (windows_of (24, 80) False) (ui_start\<lparr>pcap_out := None\<rparr>) =
      Some (clamp_view (list_rows (windows_of (24, 80) False)) (ui_start\<lparr>pcap_out := None\<rparr>), ps)"
    using redraw_keeps_inv [OF ui_start_inv windows_of_rows] by blast
  from ui_reach.startup [OF this] show ?thesis
    by (intro exI conjI, assumption) (simp add: clamp_view_def ui_start_def Let_def)
qed

lemma pk_ui_safe_witness:
  "\<exists>s st w. ui_reach ''wlan0'' (\<lambda>_ _. []) s \<and>
     ui_iteration ''wlan0'' (\<lambda>_ _. []) ui_sample_input s = Some (st, w)"
proof -
  have "input_ok ui_sample_input"
    by (simp add: input_ok_def ui_sample_input_def in_bounds_def pk_blank_def)
  then show ?thesis using ui_sample_reach pk_ui_safe [of "''wlan0''" "\<lambda>_ _. []" _ ui_sample_input] by blast
qed

end
