(* ===== verification/Cam_Trace.thy ===== *)
theory Cam_Trace
  imports Bpf_Env
begin

text \<open>
  What the camera tools share: the event record of the \<open>camtrace.h\<close> headers, the tracepoint
  records, the text of a time stamp, and the files of \<open>/proc\<close> that name a process. The three
  versions of the header differ in the last field only: the record of \<open>cam_data_tracking\<close> has no
  \<open>entity\<close>, the others extend it by one of 16 or 32 bytes.
\<close>

section \<open>Events\<close>

record cam_base =
  ce_timestamp :: u64
  ce_pid :: u32
  ce_tgid :: u32
  ce_uid :: u32
  ce_comm :: "char list"
  ce_event_type :: u32
  ce_camera_id :: u32
  ce_buffer_id :: u32
  ce_extra_1 :: u64
  ce_extra_2 :: u64

record cam_event = cam_base +
  ce_entity :: "char list"

definition EVENT_CAMERA_OPEN :: u32 where "EVENT_CAMERA_OPEN = 1"
definition EVENT_CAMERA_CLOSE :: u32 where "EVENT_CAMERA_CLOSE = 2"
definition EVENT_CAMERA_BINDER_REQ :: u32 where "EVENT_CAMERA_BINDER_REQ = 3"
definition EVENT_BUFFER_FILLED :: u32 where "EVENT_BUFFER_FILLED = 10"
definition EVENT_BUFFER_SHARED :: u32 where "EVENT_BUFFER_SHARED = 11"
definition EVENT_REQ_ADDED :: u32 where "EVENT_REQ_ADDED = 12"
definition EVENT_REQ_APPLIED :: u32 where "EVENT_REQ_APPLIED = 13"
definition EVENT_REQ_SUBMITTED :: u32 where "EVENT_REQ_SUBMITTED = 14"
definition EVENT_FLUSH :: u32 where "EVENT_FLUSH = 16"
definition EVENT_BINDER_CALL :: u32 where "EVENT_BINDER_CALL = 20"
definition EVENT_APP_SESSION :: u32 where "EVENT_APP_SESSION = 21"
definition EVENT_FRAME_BUFFER_QBUF :: u32 where "EVENT_FRAME_BUFFER_QBUF = 30"
definition EVENT_FRAME_BUFFER_DQBUF :: u32 where "EVENT_FRAME_BUFFER_DQBUF = 31"
definition EVENT_FRAME_DONE :: u32 where "EVENT_FRAME_DONE = 32"
definition EVENT_CAPTURE_REQUEST :: u32 where "EVENT_CAPTURE_REQUEST = 33"
definition EVENT_DELEGATION_EDGE :: u32 where "EVENT_DELEGATION_EDGE = 34"

lemmas cam_event_types =
  EVENT_CAMERA_OPEN_def EVENT_CAMERA_CLOSE_def EVENT_CAMERA_BINDER_REQ_def
  EVENT_BUFFER_FILLED_def EVENT_BUFFER_SHARED_def EVENT_REQ_ADDED_def EVENT_REQ_APPLIED_def
  EVENT_REQ_SUBMITTED_def EVENT_FLUSH_def EVENT_BINDER_CALL_def EVENT_APP_SESSION_def
  EVENT_FRAME_BUFFER_QBUF_def EVENT_FRAME_BUFFER_DQBUF_def EVENT_FRAME_DONE_def
  EVENT_CAPTURE_REQUEST_def EVENT_DELEGATION_EDGE_def

section \<open>Tracepoint records\<close>

text \<open>The fields the binder probes read.\<close>

record binder_args =
  bt_to_proc :: u32
  bt_reply :: u32
  bt_code :: u32

text \<open>The fields of \<open>cam_context_state\<close>: the context pointer and the state.\<close>

record context_args =
  cs_ctx :: u64
  cs_state :: u32

section \<open>Time stamps\<close>

text \<open>The common start \<open>[%5llu.%03llu]\<close> of every line: seconds and milliseconds.\<close>

definition stamp :: "u64 \<Rightarrow> string" where
  "stamp ts = ''['' @ padl 5 (dec32 (ts div 1000000000)) @ ''.'' @
     padz 3 (dec32 ((ts mod 1000000000) div 1000000)) @ '']''"

section \<open>Names of processes\<close>

text \<open>\<open>files path\<close> is what the first \<open>fread\<close> of a file can deliver, \<open>None\<close> when it cannot be
  opened. The result of \<open>read_cmdline\<close> is its return value and the string in the buffer of
  \<open>sz\<close> bytes.\<close>

definition cmdline_path :: "u32 \<Rightarrow> string" where
  "cmdline_path pid = ''/proc/'' @ sdec pid @ ''/cmdline''"

definition read_cmdline :: "(string \<rightharpoonup> char list) \<Rightarrow> u32 \<Rightarrow> nat \<Rightarrow> int \<times> string" where
  "read_cmdline files pid sz =
     (case files (take 63 (cmdline_path pid)) of
        None \<Rightarrow> (-1, take (sz - 1) (''<unknown:'' @ sdec pid @ ''>''))
      | Some bytes \<Rightarrow>
          (let buf = take (sz - 1) bytes
           in if length buf = 0 then (-1, take (sz - 1) (''<empty:'' @ sdec pid @ ''>''))
              else (let buf = map (\<lambda>c. if c = NUL then CHR '' '' else c) buf
                    in (0, takeWhile (\<lambda>c. c \<noteq> CHR '' '') buf))))"

text \<open>One directory entry: its name and whether it is a directory. The result is the process
  number, or -1.\<close>

fun scan_proc :: "(string \<rightharpoonup> char list) \<Rightarrow> string \<Rightarrow> (string \<times> bool) list \<Rightarrow> int" where
  "scan_proc files target [] = -1"
| "scan_proc files target ((d_name, is_dir) # ents) =
     (if \<not> is_dir then scan_proc files target ents
      else (let pid = atoi d_name
            in if sint pid \<le> 0 then scan_proc files target ents
               else (let (r, cmdline) = read_cmdline files pid 256
                     in if r < 0 then scan_proc files target ents
                        else if strstr cmdline target \<noteq> None then sint pid
                        else scan_proc files target ents)))"

text \<open>\<open>None\<close> for the directory: \<open>/proc\<close> cannot be opened.\<close>

definition find_pid_by_cmdline ::
  "(string \<rightharpoonup> char list) \<Rightarrow> (string \<times> bool) list option \<Rightarrow> string \<Rightarrow> int" where
  "find_pid_by_cmdline files dir target =
     (case dir of None \<Rightarrow> -1 | Some ents \<Rightarrow> scan_proc files target ents)"

definition printable_cmdline :: "char list \<Rightarrow> string" where
  "printable_cmdline buf =
     takeWhile (\<lambda>c. c \<noteq> CHR '' '') (map (\<lambda>c. if c = NUL then CHR '' '' else c) buf)"

lemma length_printable_cmdline: "length (printable_cmdline buf) \<le> length buf"
  unfolding printable_cmdline_def by (rule order.trans [OF length_takeWhile_le]) simp

lemma printable_cmdline_chars: "c \<in> set (printable_cmdline buf) \<Longrightarrow> c \<noteq> NUL \<and> c \<noteq> CHR '' ''"
  unfolding printable_cmdline_def by (auto dest!: set_takeWhileD split: if_splits)

lemma printable_cmdline_word:
  assumes "NUL \<notin> set w" and "CHR '' '' \<notin> set w"
  shows "printable_cmdline (w @ NUL # r) = w"
  using assms by (induction w) (auto simp: printable_cmdline_def)

lemma read_cmdline_cases:
  "read_cmdline files pid sz =
     (case files (take 63 (cmdline_path pid)) of
        None \<Rightarrow> (-1, take (sz - 1) (''<unknown:'' @ sdec pid @ ''>''))
      | Some bytes \<Rightarrow>
          (if take (sz - 1) bytes = [] then (-1, take (sz - 1) (''<empty:'' @ sdec pid @ ''>''))
           else (0, printable_cmdline (take (sz - 1) bytes))))"
  by (simp add: read_cmdline_def printable_cmdline_def Let_def split: option.split)

lemma length_read_cmdline: "0 < sz \<Longrightarrow> length (snd (read_cmdline files pid sz)) < sz"
  using le_less_trans [OF length_printable_cmdline, of "take (sz - 1) bytes" sz for bytes]
  by (auto simp: read_cmdline_cases split: option.split)

text \<open>The name of a process whose arguments are in \<open>/proc\<close> is its first argument up to the first
  space, cut at the size of the buffer.\<close>

lemma read_cmdline_argv0:
  assumes "files (take 63 (cmdline_path pid)) = Some (w @ NUL # r)" and "NUL \<notin> set w"
    and "CHR '' '' \<notin> set w" and "length w < sz - 1"
  shows "read_cmdline files pid sz = (0, w)"
proof -
  have "take (sz - 1) (w @ NUL # r) = w @ NUL # take (sz - 2 - length w) r"
    using assms(4) less_imp_Suc_add [of "length w" "sz - 1"] by (auto simp: take_Cons' numeral_2_eq_2)
  then show ?thesis
    using printable_cmdline_word [OF assms(2,3)] by (simp add: read_cmdline_cases assms(1))
qed

text \<open>A process that is found is a directory of \<open>/proc\<close> whose name contains the target, and no
  earlier entry qualifies.\<close>

definition names_process :: "(string \<rightharpoonup> char list) \<Rightarrow> string \<Rightarrow> string \<times> bool \<Rightarrow> bool" where
  "names_process files target ent \<longleftrightarrow> snd ent \<and> 0 < sint (atoi (fst ent)) \<and>
     (\<exists>s. read_cmdline files (atoi (fst ent)) 256 = (0, s) \<and> sublist target s)"

lemma scan_proc_step:
  "scan_proc files target (ent # ents) =
     (if names_process files target ent then sint (atoi (fst ent)) else scan_proc files target ents)"
proof -
  obtain a d where ent: "ent = (a, d)" by fastforce
  obtain r s where rs: "read_cmdline files (atoi a) 256 = (r, s)" by fastforce
  then have r: "r = 0 \<or> r = -1"
    by (auto simp: read_cmdline_cases split: option.splits if_splits)
  have "names_process files target ent \<longleftrightarrow> d \<and> 0 < sint (atoi a) \<and> r = 0 \<and> strstr s target \<noteq> None"
    using rs strstr_sublist [of s target] by (auto simp: names_process_def ent)
  with r show ?thesis by (auto simp: ent rs Let_def)
qed

lemma scan_proc_find:
  "scan_proc files target ents =
     (case find (names_process files target) ents of None \<Rightarrow> -1 | Some ent \<Rightarrow> sint (atoi (fst ent)))"
  by (induction ents) (simp_all add: scan_proc_step del: scan_proc.simps(2))

end
