(* ===== verification/Cam_V2.thy ===== *)
theory Cam_V2
  imports Cam_Trace
begin

text \<open>
  \<open>cam_v2\<close>, the camera tracer that follows requests, frames and delegation chains: the kernel
  programs of \<open>cam_v2/cam_identity.bpf.c\<close> with their maps of callers. Of a string literal that
  \<open>emit_event\<close> copies with a fixed size of 32 bytes, the bytes behind the terminator are whatever
  the read-only data hold there: a parameter \<open>rodata\<close>.
\<close>

section \<open>State\<close>

definition CAMSERVER_MATCH_WINDOW_NS :: u64 where "CAMSERVER_MATCH_WINDOW_NS = 2000000000"
definition BINDER_DEDUP_WINDOW_NS :: u64 where "BINDER_DEDUP_WINDOW_NS = 500000000"

record cv_maps =
  config_map :: "u32 \<rightharpoonup> u32"
  recent_caller :: "u32 \<rightharpoonup> u64"
  last_caller :: "u32 \<rightharpoonup> u32"
  last_caller_ns :: "u32 \<rightharpoonup> u64"

text \<open>The maps after \<open>main\<close> has stored the process number of the camera server.\<close>

definition cv_start :: "u32 \<Rightarrow> cv_maps" where
  "cv_start camserver = \<lparr>config_map = array_map1 camserver, recent_caller = Map.empty,
     last_caller = array_map1 0, last_caller_ns = array_map1 0\<rparr>"

type_synonym cv_env = "cam_event probe_env"

section \<open>Helpers\<close>

text \<open>\<open>emit_event\<close>, as the \<open>r\<close>-th reservation and with the \<open>k\<close>-th clock reading of the
  invocation.\<close>

definition emit_event ::
  "cv_env \<Rightarrow> nat \<Rightarrow> nat \<Rightarrow> u32 \<Rightarrow> u32 \<Rightarrow> u32 \<Rightarrow> u32 \<Rightarrow> u32 \<Rightarrow> u64 \<Rightarrow> u64 \<Rightarrow> char list option \<Rightarrow>
   cam_event list" where
  "emit_event env r k event_type pid uid camera_id buffer_id extra_1 extra_2 entity =
     (case reserve env r of
        None \<Rightarrow> []
      | Some e \<Rightarrow>
          [e\<lparr>ce_timestamp := ktime_ns env k, ce_pid := pid, ce_tgid := pid, ce_uid := uid,
             ce_event_type := event_type, ce_camera_id := camera_id, ce_buffer_id := buffer_id,
             ce_extra_1 := extra_1, ce_extra_2 := extra_2, ce_comm := cur_comm env,
             ce_entity := (case entity of Some s \<Rightarrow> memcpy_into (ce_entity e) s 32
                           | None \<Rightarrow> replicate 32 NUL)\<rparr>])"

definition remember_caller :: "cv_env \<Rightarrow> u32 \<Rightarrow> u64 \<Rightarrow> cv_maps \<Rightarrow> cv_maps" where
  "remember_caller env caller_pid now m = m\<lparr>
     recent_caller := bpf_map_update (map_ok env 0) caller_pid now (recent_caller m),
     last_caller := bpf_map_update (map_ok env 1) 0 caller_pid (last_caller m),
     last_caller_ns := bpf_map_update (map_ok env 2) 0 now (last_caller_ns m)\<rparr>"

text \<open>The caller, \<open>*age_ns\<close> behind the call, and the number of clock readings.\<close>

definition get_last_caller :: "cv_env \<Rightarrow> u64 \<Rightarrow> cv_maps \<Rightarrow> u32 \<times> u64 \<times> nat" where
  "get_last_caller env age_ns m =
     (case (last_caller m 0, last_caller_ns m 0) of
        (Some pid, Some ts) \<Rightarrow>
          (let now = ktime_ns env 0
           in (if CAMSERVER_MATCH_WINDOW_NS < now - ts then 0 else pid, now - ts, 1))
      | _ \<Rightarrow> (0, age_ns, 0))"

section \<open>Handlers\<close>

definition cv_binder ::
  "(string \<Rightarrow> char list) \<Rightarrow> cv_env \<Rightarrow> binder_args \<Rightarrow> cv_maps \<Rightarrow> cv_maps \<times> cam_event list" where
  "cv_binder rodata env args m =
     (if bt_reply args \<noteq> 0 then (m, [])
      else (case config_map m 0 of
              None \<Rightarrow> (m, [])
            | Some camserver_pid \<Rightarrow>
                if camserver_pid = 0 then (m, [])
                else if bt_to_proc args \<noteq> camserver_pid then (m, [])
                else if cur_pid env = 0 then (m, [])
                else if cur_uid env < 10000 then (m, [])
                else
                  (let now = ktime_ns env 0;
                       seen = (case recent_caller m (cur_pid env) of
                                 Some t \<Rightarrow> now - t < BINDER_DEDUP_WINDOW_NS | None \<Rightarrow> False)
                   in if seen then (m, [])
                      else
                        (let m = remember_caller env (cur_pid env) now m;
                             es1 = emit_event env 0 1 EVENT_DELEGATION_EDGE (cur_pid env) (cur_uid env)
                               0 0 (ucast camserver_pid) (ucast (bt_code args))
                               (Some (rodata ''binder->cameraserver''));
                             es2 = emit_event env 1 (1 + length es1) EVENT_BINDER_CALL (cur_pid env)
                               (cur_uid env) 0 0 (ucast camserver_pid) (ucast (bt_code args))
                               (Some (rodata ''cameraserver''))
                         in (m, es1 @ es2)))))"

definition cv_context_state :: "(string \<Rightarrow> char list) \<Rightarrow> cv_env \<Rightarrow> cv_maps \<Rightarrow> cam_event list" where
  "cv_context_state rodata env m =
     (let (inferred_pid, age_ns, k) = get_last_caller env 0 m;
          inferred_pid = (if inferred_pid = 0 then cur_pid env else inferred_pid)
      in emit_event env 0 k EVENT_APP_SESSION inferred_pid (cur_uid env) 0 0 0 age_ns
           (Some (rodata ''cam_context_state'')))"

definition cv_apply_req :: "(string \<Rightarrow> char list) \<Rightarrow> cv_env \<Rightarrow> cam_event list" where
  "cv_apply_req rodata env =
     emit_event env 0 0 EVENT_CAPTURE_REQUEST (cur_pid env) (cur_uid env) 0 0 0 0
       (Some (rodata ''cam_apply_req''))"

definition cv_buf_done :: "(string \<Rightarrow> char list) \<Rightarrow> cv_env \<Rightarrow> cam_event list" where
  "cv_buf_done rodata env =
     emit_event env 0 0 EVENT_FRAME_DONE (cur_pid env) (cur_uid env) 0 0 0 0
       (Some (rodata ''cam_buf_done''))"

definition cv_qbuf :: "(string \<Rightarrow> char list) \<Rightarrow> cv_env \<Rightarrow> cam_event list" where
  "cv_qbuf rodata env =
     emit_event env 0 0 EVENT_FRAME_BUFFER_QBUF (cur_pid env) (cur_uid env) 0 0 0 0
       (Some (rodata ''v4l2_qbuf''))"

definition cv_dqbuf :: "(string \<Rightarrow> char list) \<Rightarrow> cv_env \<Rightarrow> cam_event list" where
  "cv_dqbuf rodata env =
     emit_event env 0 0 EVENT_FRAME_BUFFER_DQBUF (cur_pid env) (cur_uid env) 0 0 0 0
       (Some (rodata ''v4l2_dqbuf''))"

text \<open>The six programs share the maps; the kernel runs them in any order.\<close>

datatype cv_point = Binder binder_args | Context_State | Apply_Req | Buf_Done | Qbuf | Dqbuf

type_synonym cv_input = "cv_env \<times> cv_point"

fun cv_step :: "(string \<Rightarrow> char list) \<Rightarrow> cv_input \<Rightarrow> cv_maps \<Rightarrow> cv_maps \<times> cam_event list" where
  "cv_step rodata (env, Binder args) m = cv_binder rodata env args m"
| "cv_step rodata (env, Context_State) m = (m, cv_context_state rodata env m)"
| "cv_step rodata (env, Apply_Req) m = (m, cv_apply_req rodata env)"
| "cv_step rodata (env, Buf_Done) m = (m, cv_buf_done rodata env)"
| "cv_step rodata (env, Qbuf) m = (m, cv_qbuf rodata env)"
| "cv_step rodata (env, Dqbuf) m = (m, cv_dqbuf rodata env)"

section \<open>The binder probe\<close>

text \<open>The guards of the probe, apart from the window.\<close>

definition cv_call :: "u32 \<Rightarrow> cv_input \<Rightarrow> bool" where
  "cv_call camserver x =
     (case snd x of
        Binder args \<Rightarrow> bt_reply args = 0 \<and> camserver \<noteq> 0 \<and> bt_to_proc args = camserver \<and>
          cur_pid (fst x) \<noteq> 0 \<and> 10000 \<le> cur_uid (fst x)
      | _ \<Rightarrow> False)"

abbreviation cv_time :: "cv_input \<Rightarrow> u64" where
  "cv_time x \<equiv> ktime_ns (fst x) 0"

definition cv_calling :: "cv_input \<Rightarrow> cv_maps \<Rightarrow> bool" where
  "cv_calling x m \<longleftrightarrow> (case config_map m 0 of None \<Rightarrow> False | Some c \<Rightarrow> cv_call c x) \<and>
     (case recent_caller m (cur_pid (fst x)) of
        Some t \<Rightarrow> \<not> cv_time x - t < BINDER_DEDUP_WINDOW_NS | None \<Rightarrow> True)"

lemma cv_step_maps:
  "fst (cv_step rodata x m) =
     (if cv_calling x m then remember_caller (fst x) (cur_pid (fst x)) (cv_time x) m else m)"
  by (cases "(rodata, x, m)" rule: cv_step.cases)
    (auto simp: cv_calling_def cv_call_def cv_binder_def Let_def not_le split: option.split)

lemma cv_binder_events:
  assumes "e \<in> set (snd (cv_binder rodata env args m))"
  shows "cv_calling (env, Binder args) m"
  using assms
  by (auto simp: cv_calling_def cv_call_def cv_binder_def Let_def not_le split: option.splits if_splits)

lemma emit_event_fields:
  assumes "e \<in> set (emit_event env r k ty pid uid cam buf x1 x2 ent)"
  shows "ce_timestamp e = ktime_ns env k \<and> ce_pid e = pid \<and> ce_tgid e = pid \<and> ce_uid e = uid \<and>
    ce_event_type e = ty \<and> ce_extra_1 e = x1 \<and> ce_extra_2 e = x2 \<and> ce_comm e = cur_comm env"
  using assms by (auto simp: emit_event_def split: option.splits)

lemma remember_caller_config [simp]: "config_map (remember_caller env p now m) = config_map m"
  by (simp add: remember_caller_def)

lemma remember_caller_recent:
  "recent_caller (remember_caller env p now m) k =
     (if k = p \<and> map_ok env 0 then Some now else recent_caller m k)"
  by (simp add: remember_caller_def bpf_map_update_def)

section \<open>Delegation edges\<close>

text \<open>The same programs, of whose events only the delegation edges are kept.\<close>

definition is_edge :: "cam_event \<Rightarrow> bool" where
  "is_edge e \<longleftrightarrow> ce_event_type e = EVENT_DELEGATION_EDGE"

definition cv_edges :: "(string \<Rightarrow> char list) \<Rightarrow> cv_input \<Rightarrow> cv_maps \<Rightarrow> cv_maps \<times> cam_event list" where
  "cv_edges rodata x m = (fst (cv_step rodata x m), filter is_edge (snd (cv_step rodata x m)))"

lemma cv_edge_calling:
  assumes "snd (cv_edges rodata x m) \<noteq> []"
  shows "cv_calling x m"
proof -
  obtain e where e: "e \<in> set (snd (cv_step rodata x m))" "is_edge e"
    using assms by (auto simp: cv_edges_def filter_empty_conv)
  then show ?thesis
    using cv_binder_events
    by (cases "(rodata, x, m)" rule: cv_step.cases)
      (auto simp: is_edge_def cam_event_types cv_context_state_def cv_apply_req_def cv_buf_done_def
        cv_qbuf_def cv_dqbuf_def case_prod_unfold Let_def dest!: emit_event_fields)
qed

interpretation cv: dedup_window "cv_edges rodata" recent_caller "\<lambda>x. cur_pid (fst x)"
  "\<lambda>x. ktime_ns (fst x) 0" "\<lambda>x. map_ok (fst x) 0" BINDER_DEDUP_WINDOW_NS for rodata
proof
  fix s :: cv_maps and x :: cv_input and t
  assume "recent_caller s (cur_pid (fst x)) = Some t"
    and "ktime_ns (fst x) 0 - t < BINDER_DEDUP_WINDOW_NS"
  then have "\<not> cv_calling x s" by (simp add: cv_calling_def)
  then show "snd (cv_edges rodata x s) = []" using cv_edge_calling by blast
next
  fix s :: cv_maps and x :: cv_input
  assume "snd (cv_edges rodata x s) \<noteq> []" and "map_ok (fst x) 0"
  then show "recent_caller (fst (cv_edges rodata x s)) (cur_pid (fst x)) = Some (ktime_ns (fst x) 0)"
    using cv_edge_calling [of rodata x s]
    by (simp add: cv_edges_def cv_step_maps remember_caller_recent)
next
  fix s :: cv_maps and x :: cv_input and k
  show "recent_caller (fst (cv_edges rodata x s)) k = recent_caller s k \<or>
    (k = cur_pid (fst x) \<and> recent_caller (fst (cv_edges rodata x s)) k = Some (ktime_ns (fst x) 0))"
    by (auto simp: cv_edges_def cv_step_maps remember_caller_recent)
qed

text \<open>What a binder event says is true of the invocation it comes from.\<close>

lemma cv_step_true:
  assumes "config_map m 0 = Some c" and "e \<in> set (snd (cv_step rodata x m))"
    and "ce_event_type e = EVENT_DELEGATION_EDGE \<or> ce_event_type e = EVENT_BINDER_CALL"
  shows "\<exists>env args. x = (env, Binder args) \<and> bt_reply args = 0 \<and> bt_to_proc args = c \<and> c \<noteq> 0 \<and>
    cur_pid env \<noteq> 0 \<and> 10000 \<le> cur_uid env \<and> ce_pid e = cur_pid env \<and> ce_uid e = cur_uid env \<and>
    ce_extra_1 e = ucast (bt_to_proc args) \<and> ce_extra_2 e = ucast (bt_code args)"
proof (cases "\<exists>env args. x = (env, Binder args)")
  case True
  then obtain env args where x: "x = (env, Binder args)" by blast
  then have "cv_call c x"
    using assms cv_binder_events [of e rodata env args m] by (auto simp: cv_calling_def)
  with assms x show ?thesis
    by (auto simp: cv_call_def cv_binder_def Let_def split: if_splits option.splits
        dest!: emit_event_fields)
next
  case False
  then show ?thesis using assms
    by (cases "(rodata, x, m)" rule: cv_step.cases)
      (auto simp: cam_event_types cv_context_state_def cv_apply_req_def cv_buf_done_def
        cv_qbuf_def cv_dqbuf_def case_prod_unfold Let_def dest!: emit_event_fields)
qed

text \<open>The guarantee that does not mention the invocation.\<close>

definition cv_honest :: "u32 \<Rightarrow> cam_event \<Rightarrow> bool" where
  "cv_honest camserver e \<longleftrightarrow>
     (ce_event_type e = EVENT_DELEGATION_EDGE \<or> ce_event_type e = EVENT_BINDER_CALL \<longrightarrow>
        ce_pid e \<noteq> 0 \<and> 10000 \<le> ce_uid e \<and> ce_extra_1 e = ucast camserver \<and> camserver \<noteq> 0)"

interpretation cv_probe: probe_guarantee "cv_step rodata" "\<lambda>_. True" "\<lambda>m. config_map m 0 = Some c"
  "cv_honest c" for rodata c
  by unfold_locales (auto simp: cv_step_maps cv_honest_def dest: cv_step_true)

text \<open>C6: delegation reports are true and not repeated. Whatever the interleaving of the
  six programs, every delegation edge and every binder call that is reported comes from an invocation
  of the binder probe: for a transaction that is no reply, to the process configured as the camera server, sent by
  the process and user that the event names, a process other than 0 of an application user; the target and
  the code of the event are those of the transaction. And two edges of one process are at least half
  a second apart, provided that no update of the map of recent callers is rejected; a full map, of 1024
  callers, would lift the spacing.\<close>

theorem cv_delegation_reports:
  assumes "sorted_wrt (\<lambda>x y. ktime_ns (fst x) 0 \<le> ktime_ns (fst y) 0) xs"
    and "\<forall>x \<in> set xs. map_ok (fst x) 0" and "config_map m 0 = Some camserver"
  shows "sorted_wrt (\<lambda>x y. cur_pid (fst x) = cur_pid (fst y) \<longrightarrow>
        unat (ktime_ns (fst x) 0) + 500000000 \<le> unat (ktime_ns (fst y) 0))
      (emitting (cv_edges rodata) m xs) \<and>
    (\<forall>e \<in> set (snd (run_probe (cv_step rodata) m xs)).
       ce_event_type e \<in> {EVENT_DELEGATION_EDGE, EVENT_BINDER_CALL} \<longrightarrow>
         (\<exists>env args. (env, Binder args) \<in> set xs \<and>
            bt_reply args = 0 \<and> bt_to_proc args = camserver \<and> camserver \<noteq> 0 \<and>
            ce_pid e = cur_pid env \<and> cur_pid env \<noteq> 0 \<and> ce_uid e = cur_uid env \<and> 10000 \<le> cur_uid env \<and>
            ce_extra_1 e = ucast (bt_to_proc args) \<and> ce_extra_2 e = ucast (bt_code args)))"
proof (intro conjI ballI impI)
  show "sorted_wrt (\<lambda>x y. cur_pid (fst x) = cur_pid (fst y) \<longrightarrow>
      unat (ktime_ns (fst x) 0) + 500000000 \<le> unat (ktime_ns (fst y) 0))
    (emitting (cv_edges rodata) m xs)"
    using cv.emitting_spaced [OF assms(1,2), of rodata m] by (simp add: BINDER_DEDUP_WINDOW_NS_def)
next
  fix e assume e: "e \<in> set (snd (run_probe (cv_step rodata) m xs))"
    and ty: "ce_event_type e \<in> {EVENT_DELEGATION_EDGE, EVENT_BINDER_CALL}"
  obtain x m' where x: "x \<in> set xs" "config_map m' 0 = Some camserver" "e \<in> set (snd (cv_step rodata x m'))"
    using cv_probe.run_source [OF assms(3) _ e] by blast
  then show "\<exists>env args. (env, Binder args) \<in> set xs \<and>
      bt_reply args = 0 \<and> bt_to_proc args = camserver \<and> camserver \<noteq> 0 \<and>
      ce_pid e = cur_pid env \<and> cur_pid env \<noteq> 0 \<and> ce_uid e = cur_uid env \<and> 10000 \<le> cur_uid env \<and>
      ce_extra_1 e = ucast (bt_to_proc args) \<and> ce_extra_2 e = ucast (bt_code args)"
    using cv_step_true [OF x(2,3)] ty by auto
qed

definition cv_blank :: cam_event where
  "cv_blank = \<lparr>ce_timestamp = 0, ce_pid = 0, ce_tgid = 0, ce_uid = 0, ce_comm = replicate 16 NUL,
     ce_event_type = 0, ce_camera_id = 0, ce_buffer_id = 0, ce_extra_1 = 0, ce_extra_2 = 0,
     ce_entity = replicate 32 NUL\<rparr>"

definition cv_sample_env :: "u64 \<Rightarrow> cv_env" where
  "cv_sample_env t = \<lparr>ktime_ns = (\<lambda>_. t), pid_tgid = 0x0000000700000007, uid_gid = 10077,
     cur_comm = replicate 16 NUL, reserve = (\<lambda>_. Some cv_blank), map_ok = (\<lambda>_. True)\<rparr>"

definition cv_sample :: "u64 \<Rightarrow> cv_input" where
  "cv_sample t = (cv_sample_env t, Binder \<lparr>bt_to_proc = 5, bt_reply = 0, bt_code = 3\<rparr>)"

definition padded :: "string \<Rightarrow> char list" where
  "padded s = s @ replicate (32 - length s) NUL"

lemma cv_delegation_reports_witness:
  "map (\<lambda>x. ktime_ns (fst x) 0) (emitting (cv_edges padded) (cv_start 5)
      [cv_sample 1000000000, cv_sample 1200000000, cv_sample 2000000000]) = [1000000000, 2000000000] \<and>
   sorted_wrt (\<lambda>x y. cur_pid (fst x) = cur_pid (fst y) \<longrightarrow>
        unat (ktime_ns (fst x) 0) + 500000000 \<le> unat (ktime_ns (fst y) 0))
      (emitting (cv_edges padded) (cv_start 5)
        [cv_sample 1000000000, cv_sample 1200000000, cv_sample 2000000000])"
proof
  show "map (\<lambda>x. ktime_ns (fst x) 0) (emitting (cv_edges padded) (cv_start 5)
      [cv_sample 1000000000, cv_sample 1200000000, cv_sample 2000000000]) = [1000000000, 2000000000]"
    by code_simp
qed (rule conjunct1 [OF cv_delegation_reports [where camserver = 5]];
     simp add: cv_sample_def cv_sample_env_def cv_start_def array_map1_def)

section \<open>Attribution of sessions\<close>

text \<open>The calls that were not suppressed, oldest first: process and time.\<close>

definition cv_accept :: "u32 \<Rightarrow> (u32 \<times> u64) list \<Rightarrow> cv_input \<Rightarrow> (u32 \<times> u64) list" where
  "cv_accept camserver calls x =
     (if cv_call camserver x \<and>
         (case map_of (rev calls) (cur_pid (fst x)) of
            Some t \<Rightarrow> BINDER_DEDUP_WINDOW_NS \<le> cv_time x - t | None \<Rightarrow> True)
      then calls @ [(cur_pid (fst x), cv_time x)] else calls)"

definition cv_calls :: "u32 \<Rightarrow> cv_input list \<Rightarrow> (u32 \<times> u64) list" where
  "cv_calls camserver xs = foldl (cv_accept camserver) [] xs"

definition cv_refines :: "u32 \<Rightarrow> cv_maps \<Rightarrow> (u32 \<times> u64) list \<Rightarrow> bool" where
  "cv_refines camserver m calls \<longleftrightarrow> config_map m 0 = Some camserver \<and>
     recent_caller m = map_of (rev calls) \<and>
     last_caller m 0 = Some (if calls = [] then 0 else fst (last calls)) \<and>
     last_caller_ns m 0 = Some (if calls = [] then 0 else snd (last calls))"

lemma cv_refines_step:
  assumes "cv_refines c m calls" and "\<forall>i. map_ok (fst x) i"
  shows "cv_refines c (fst (cv_step rodata x m)) (cv_accept c calls x)"
proof -
  have "cv_calling x m \<longleftrightarrow> cv_call c x \<and>
      (case map_of (rev calls) (cur_pid (fst x)) of
         Some t \<Rightarrow> BINDER_DEDUP_WINDOW_NS \<le> cv_time x - t | None \<Rightarrow> True)"
    using assms(1) by (auto simp: cv_calling_def cv_refines_def not_less split: option.split)
  then show ?thesis
    using assms by (auto simp: cv_step_maps cv_accept_def cv_refines_def remember_caller_def)
qed

lemma cv_refines_run:
  "cv_refines c m calls \<Longrightarrow> \<forall>x \<in> set xs. \<forall>i. map_ok (fst x) i \<Longrightarrow>
   cv_refines c (fst (run_probe (cv_step rodata) m xs)) (foldl (cv_accept c) calls xs)"
proof (induction xs arbitrary: m calls)
  case Nil
  then show ?case by (simp add: run_probe.simps(1))
next
  case (Cons x xs)
  then have "cv_refines c (fst (cv_step rodata x m)) (cv_accept c calls x)"
    by (intro cv_refines_step) auto
  then show ?case using Cons.IH Cons.prems(2) by simp
qed

lemma cv_start_refines: "cv_refines c (cv_start c) []"
  by (simp add: cv_refines_def cv_start_def array_map1_def)

lemma cv_calls_pid: "(p, t) \<in> set (cv_calls c xs) \<Longrightarrow> p \<noteq> 0"
proof -
  have "(p, t) \<in> set (foldl (cv_accept c) calls xs) \<Longrightarrow> (p, t) \<in> set calls \<or> p \<noteq> 0" for calls
  proof (induction xs arbitrary: calls)
    case Nil
    then show ?case by simp
  next
    case (Cons x xs)
    have "set (cv_accept c calls x) \<subseteq> set calls \<union> {(p, t) | p t. p \<noteq> 0}"
      by (auto simp: cv_accept_def cv_call_def split: cv_point.splits)
    then show ?case using Cons.IH [of "cv_accept c calls x"] Cons.prems by auto
  qed
  from this [of "[]"] show "(p, t) \<in> set (cv_calls c xs) \<Longrightarrow> p \<noteq> 0" by (simp add: cv_calls_def)
qed

text \<open>C7: a change of the camera context is attributed to the caller of the last call
  to the camera server that was not suppressed, if that call is at most two seconds old, and to the
  current process otherwise; the reported age is the age of that call. Every update of a map
  before is taken to succeed, that is, the map of callers is never full.\<close>

theorem cv_session_attribution:
  assumes "\<forall>x \<in> set xs. \<forall>i. map_ok (fst x) i" and "reserve env 0 = Some e0"
  shows "\<exists>e. snd (cv_step rodata (env, Context_State)
        (fst (run_probe (cv_step rodata) (cv_start camserver) xs))) = [e] \<and>
    (cv_calls camserver xs = [] \<longrightarrow> ce_pid e = cur_pid env) \<and>
    (\<forall>calls p t. cv_calls camserver xs = calls @ [(p, t)] \<longrightarrow>
       ce_pid e = (if ktime_ns env 0 - t \<le> 2000000000 then p else cur_pid env) \<and>
       ce_extra_2 e = ktime_ns env 0 - t)"
proof -
  let ?m = "fst (run_probe (cv_step rodata) (cv_start camserver) xs)"
  have r: "cv_refines camserver ?m (cv_calls camserver xs)"
    using cv_refines_run [OF cv_start_refines assms(1)] by (simp add: cv_calls_def)
  have nz: "p \<noteq> 0" if "cv_calls camserver xs = calls @ [(p, t)]" for calls p t
    using cv_calls_pid [of p t camserver xs] that by simp
  show ?thesis
    using r assms(2) nz
    by (auto simp: cv_refines_def cv_context_state_def get_last_caller_def emit_event_def Let_def
        CAMSERVER_MATCH_WINDOW_NS_def not_le)
qed

lemma cv_session_attribution_witness:
  "\<exists>e. snd (cv_step padded (cv_sample_env 2500000000, Context_State)
      (fst (run_probe (cv_step padded) (cv_start 5) [cv_sample 1000000000]))) = [e] \<and>
     ce_pid e = 7 \<and> ce_extra_2 e = 1500000000"
proof -
  have calls: "cv_calls 5 [cv_sample 1000000000] = [] @ [(7, 1000000000)]" by code_simp
  have "\<forall>x \<in> set [cv_sample 1000000000]. \<forall>i. map_ok (fst x) i"
    by (simp add: cv_sample_def cv_sample_env_def)
  moreover have "reserve (cv_sample_env 2500000000) 0 = Some cv_blank" by (simp add: cv_sample_env_def)
  ultimately show ?thesis
    using calls cv_session_attribution [of "[cv_sample 1000000000]" "cv_sample_env 2500000000" cv_blank padded 5]
    by (auto simp: cv_sample_env_def)
qed

end
