(* ===== verification/Cam_V2_Report.thy ===== *)
theory Cam_V2_Report
  imports Cam_V2
begin

text \<open>
  The user-space side of \<open>cam_v2\<close> (\<open>cam_v2/cam_identity.c\<close>): the ring of the last 64 delegation
  edges, the cached name of the foreground application, and the printed report, which links frame
  activity and binder calls to the edges seen before.
\<close>

section \<open>State and environment\<close>

definition MAX_EDGES :: nat where "MAX_EDGES = 64"
definition MAX_CMDLINE :: nat where "MAX_CMDLINE = 256"
definition MAX_FOREGROUND :: nat where "MAX_FOREGROUND = 128"
definition FOREGROUND_CACHE_NS :: u64 where "FOREGROUND_CACHE_NS = 1000000000"
definition CHAIN_WINDOW_NS :: u64 where "CHAIN_WINDOW_NS = 2000000000"

text \<open>The two name arrays are given by the strings they hold.\<close>

record edge_record =
  ed_ts :: u64
  ed_src_pid :: u32
  ed_dst_pid :: u32
  ed_code :: u32
  ed_src_name :: string
  ed_dst_name :: string

text \<open>The globals, with the static variables of \<open>read_foreground_package\<close>.\<close>

record cv_user =
  edges :: "edge_record list"
  edge_pos :: nat
  fg_cached :: string
  fg_cached_ts :: u64

definition no_edge :: edge_record where
  "no_edge = \<lparr>ed_ts = 0, ed_src_pid = 0, ed_dst_pid = 0, ed_code = 0, ed_src_name = [], ed_dst_name = []\<rparr>"

definition cv_user_start :: cv_user where
  "cv_user_start = \<lparr>edges = replicate 64 no_edge, edge_pos = 0, fg_cached = [], fg_cached_ts = 0\<rparr>"

text \<open>What the system answers while one event is handled: the monotonic clock, the files of
  \<open>/proc\<close>, and the line that \<open>fgets\<close> reads from the \<open>dumpsys\<close> pipeline, \<open>None\<close> when the
  pipeline cannot be started or yields nothing.\<close>

record cv_world =
  mono_sec :: u64
  mono_nsec :: u64
  proc_files :: "string \<rightharpoonup> char list"
  focus_line :: "string option"

definition now_ns :: "cv_world \<Rightarrow> u64" where
  "now_ns w = mono_sec w * 1000000000 + mono_nsec w"

section \<open>The foreground application\<close>

definition package_end :: "char \<Rightarrow> bool" where
  "package_end c \<longleftrightarrow> c = CHR ''/'' \<or> c = CHR '' '' \<or> c = CHR ''}''"

text \<open>The string left in the buffer of \<open>sz\<close> bytes and the cache behind the call.\<close>

definition read_foreground_package :: "cv_world \<Rightarrow> nat \<Rightarrow> cv_user \<Rightarrow> string \<times> cv_user" where
  "read_foreground_package w sz st =
     (if fg_cached st \<noteq> [] \<and> now_ns w - fg_cached_ts st < FOREGROUND_CACHE_NS
      then (take (sz - 1) (fg_cached st), st)
      else (case focus_line w of
              None \<Rightarrow> (take (sz - 1) ''<foreground-unknown>'', st)
            | Some line \<Rightarrow>
                (let pkg = (case strstr line ''u0 '' of None \<Rightarrow> strstr line ''u0/'' | Some p \<Rightarrow> Some p);
                     buf = (case pkg of
                              Some p \<Rightarrow> take (sz - 1) (takeWhile (\<lambda>c. \<not> package_end c) (drop 3 p))
                            | None \<Rightarrow> take (sz - 1) ''<foreground-unknown>'')
                 in (buf, if buf \<noteq> []
                          then st\<lparr>fg_cached := take (MAX_FOREGROUND - 1) buf, fg_cached_ts := now_ns w\<rparr>
                          else st))))"

section \<open>Edges\<close>

definition event_name :: "u32 \<Rightarrow> string" where
  "event_name ty =
     (if ty = EVENT_BINDER_CALL then ''BINDER_CALL''
      else if ty = EVENT_APP_SESSION then ''CAM_SESSION''
      else if ty = EVENT_FRAME_BUFFER_QBUF then ''FRAME_QBUF''
      else if ty = EVENT_FRAME_BUFFER_DQBUF then ''FRAME_DQBUF''
      else if ty = EVENT_FRAME_DONE then ''FRAME_DONE''
      else if ty = EVENT_CAPTURE_REQUEST then ''CAPTURE_REQ''
      else if ty = EVENT_DELEGATION_EDGE then ''DELEGATION''
      else ''UNKNOWN'')"

definition edge_of :: "u32 \<Rightarrow> u32 \<Rightarrow> u32 \<Rightarrow> string option \<Rightarrow> string option \<Rightarrow> u64 \<Rightarrow> edge_record" where
  "edge_of src_pid dst_pid code src_name dst_name ts =
     \<lparr>ed_ts = ts, ed_src_pid = src_pid, ed_dst_pid = dst_pid, ed_code = code,
      ed_src_name = take (MAX_CMDLINE - 1) (case src_name of Some s \<Rightarrow> s | None \<Rightarrow> ''<unknown>''),
      ed_dst_name = take (MAX_CMDLINE - 1) (case dst_name of Some s \<Rightarrow> s | None \<Rightarrow> ''<unknown>'')\<rparr>"

definition push_edge :: "edge_record \<Rightarrow> cv_user \<Rightarrow> cv_user" where
  "push_edge e st = st\<lparr>edges := (edges st)[edge_pos st mod MAX_EDGES := e], edge_pos := edge_pos st + 1\<rparr>"

text \<open>The position is an \<open>int\<close> that is never reduced; \<open>None\<close> is its overflow, which is undefined
  in C.\<close>

definition remember_edge ::
  "u32 \<Rightarrow> u32 \<Rightarrow> u32 \<Rightarrow> string option \<Rightarrow> string option \<Rightarrow> u64 \<Rightarrow> cv_user \<Rightarrow> cv_user option" where
  "remember_edge src_pid dst_pid code src_name dst_name ts st =
     (if edge_pos st < 2 ^ 31 - 1
      then Some (push_edge (edge_of src_pid dst_pid code src_name dst_name ts) st) else None)"

text \<open>The loop from \<open>i\<close> for at most \<open>n\<close> further entries.\<close>

fun find_edge_from :: "nat \<Rightarrow> nat \<Rightarrow> u32 \<Rightarrow> u64 \<Rightarrow> cv_user \<Rightarrow> edge_record option" where
  "find_edge_from 0 i pid ts st = None"
| "find_edge_from (Suc n) i pid ts st =
     (if edge_pos st < Suc i then None
      else (let e = edges st ! ((edge_pos st - 1 - i) mod MAX_EDGES)
            in if ed_src_pid e \<noteq> pid then find_edge_from n (Suc i) pid ts st
               else if ed_ts e \<le> ts \<and> ts - ed_ts e \<le> CHAIN_WINDOW_NS then Some e
               else find_edge_from n (Suc i) pid ts st))"

definition find_recent_edge :: "u32 \<Rightarrow> u64 \<Rightarrow> cv_user \<Rightarrow> edge_record option" where
  "find_recent_edge pid ts st = find_edge_from MAX_EDGES 0 pid ts st"

section \<open>The report\<close>

definition app_name :: "cv_world \<Rightarrow> cam_event \<Rightarrow> string" where
  "app_name w e =
     (if 0 < ce_pid e then snd (read_cmdline (proc_files w) (ce_pid e) MAX_CMDLINE) else ''<unknown>'')"

definition cv_head :: "string \<Rightarrow> string \<Rightarrow> cam_event \<Rightarrow> string" where
  "cv_head tag appname e =
     stamp (ce_timestamp e) @ '' '' @ padr 14 (event_name (ce_event_type e)) @ '' '' @ tag @
     padr 38 appname @ '' PID='' @ padr 6 (dec32 (ce_pid e))"

definition chain_line :: "string \<Rightarrow> string \<Rightarrow> string" where
  "chain_line fg appname =
     ''              CHAIN: foreground='' @ fg @ '' -> '' @ appname @ '' -> cameraserver'' @ [newline]"

definition link_line :: "edge_record \<Rightarrow> string" where
  "link_line d =
     ''              LINK: '' @ ed_src_name d @ '' -> cameraserver -> frame activity'' @ [newline]"

definition is_frame :: "u32 \<Rightarrow> bool" where
  "is_frame ty \<longleftrightarrow> ty = EVENT_CAPTURE_REQUEST \<or> ty = EVENT_FRAME_DONE \<or>
     ty = EVENT_FRAME_BUFFER_QBUF \<or> ty = EVENT_FRAME_BUFFER_DQBUF"

definition cv_handle_event :: "cv_world \<Rightarrow> cam_event \<Rightarrow> cv_user \<Rightarrow> (cv_user \<times> string) option" where
  "cv_handle_event w e st =
     (let appname = app_name w e;
          (fg, st) = read_foreground_package w MAX_FOREGROUND st
      in if ce_event_type e = EVENT_DELEGATION_EDGE
         then map_option (\<lambda>st.
                (st, cv_head ''SRC='' appname e @ '' -> cameraserver(code='' @ dec32 (ce_extra_2 e) @ '')'' @
                     [newline] @
                     (if fg \<noteq> [] \<and> fg \<noteq> appname \<and> strstr appname ''gms.ui'' \<noteq> None
                      then chain_line fg appname else [])))
              (remember_edge (ce_pid e) (ucast (ce_extra_1 e)) (ucast (ce_extra_2 e)) (Some appname)
                 (Some ''cameraserver'') (ce_timestamp e) st)
         else if ce_event_type e = EVENT_BINDER_CALL
         then Some (st, cv_head ''APP='' appname e @ '' -> cameraserver'' @ [newline] @
                (if find_recent_edge (ce_pid e) (ce_timestamp e) st \<noteq> None \<and> fg \<noteq> [] \<and> fg \<noteq> appname
                 then chain_line fg appname else []))
         else if ce_event_type e = EVENT_APP_SESSION
         then Some (st, cv_head ''APP='' appname e @ '' STATE='' @ dec32 (ce_extra_1 e) @ '' AGE='' @
                dec32 (ce_extra_2 e div 1000000) @ ''ms'' @ [newline])
         else if is_frame (ce_event_type e)
         then Some (st, cv_head ''APP='' appname e @ '' DETAIL='' @ cstr (ce_entity e) @ [newline] @
                (case find_recent_edge (ce_pid e) (ce_timestamp e) st of
                   None \<Rightarrow> [] | Some d \<Rightarrow> link_line d))
         else Some (st, []))"

section \<open>The ring of edges\<close>

definition edge_log :: "cv_user \<Rightarrow> edge_record list" where
  "edge_log st = map (\<lambda>i. edges st ! (i mod 64)) [edge_pos st - 64..<edge_pos st]"

lemma mod_64_distinct: "i < p \<Longrightarrow> p < i + 64 \<Longrightarrow> (i :: nat) mod 64 \<noteq> p mod 64"
  using mod_eq_dvd_iff_nat [of i p 64] dvd_imp_le [of 64 "p - i"] by auto

lemma push_edge_log:
  assumes "length (edges st) = 64"
  shows "edge_log (push_edge e st) = last_n 64 (edge_log st @ [e])"
proof -
  let ?p = "edge_pos st"
  have keep: "(edges st)[?p mod 64 := e] ! (i mod 64) = edges st ! (i mod 64)"
    if "?p - 63 \<le> i" "i < ?p" for i
  proof -
    have "?p < i + 64" using that(1) by linarith
    then show ?thesis using that(2) mod_64_distinct [of i ?p] by (intro nth_list_update_neq) simp
  qed
  have "edge_log (push_edge e st) = map (\<lambda>i. edges st ! (i mod 64)) [?p - 63..<?p] @ [e]"
    using assms keep by (simp add: edge_log_def push_edge_def MAX_EDGES_def)
  also have "?p - 63 = ?p - 64 + (?p - (?p - 64 + 63))" by arith
  also have "map (\<lambda>i. edges st ! (i mod 64)) [\<dots>..<?p] @ [e] = last_n 64 (edge_log st @ [e])"
    by (simp add: edge_log_def last_n_def drop_map)
  finally show ?thesis .
qed

interpretation edge_ring: bounded_log push_edge edge_log "\<lambda>st. length (edges st) = 64" 64
  by unfold_locales (simp_all add: push_edge_log, simp add: push_edge_def)

definition recent_for :: "u32 \<Rightarrow> u64 \<Rightarrow> edge_record \<Rightarrow> bool" where
  "recent_for pid ts d \<longleftrightarrow> ed_src_pid d = pid \<and> ed_ts d \<le> ts \<and> ts - ed_ts d \<le> CHAIN_WINDOW_NS"

lemma find_edge_from_find:
  "find_edge_from n i pid ts st =
     find (recent_for pid ts) (map (\<lambda>j. edges st ! ((edge_pos st - 1 - j) mod 64)) [i..<min (edge_pos st) (i + n)])"
proof (induction n arbitrary: i)
  case 0
  then show ?case by simp
next
  case (Suc n)
  show ?case
  proof (cases "i < edge_pos st")
    case True
    then have "[i..<min (edge_pos st) (i + Suc n)] = i # [Suc i..<min (edge_pos st) (Suc i + n)]"
      by (simp add: upt_conv_Cons)
    then show ?thesis using True Suc.IH [of "Suc i"]
      by (auto simp: Let_def MAX_EDGES_def recent_for_def)
  qed simp
qed

lemma find_recent_edge_log: "find_recent_edge pid ts st = find (recent_for pid ts) (rev (edge_log st))"
proof -
  have "map (\<lambda>j. edges st ! ((edge_pos st - 1 - j) mod 64)) [0..<min (edge_pos st) 64] = rev (edge_log st)"
    by (rule nth_equalityI) (auto simp: edge_log_def rev_nth algebra_simps)
  then show ?thesis by (simp add: find_recent_edge_def find_edge_from_find MAX_EDGES_def)
qed

section \<open>Links\<close>

text \<open>The edge an event leaves behind.\<close>

definition edge_in :: "cv_world \<times> cam_event \<Rightarrow> edge_record" where
  "edge_in x = edge_of (ce_pid (snd x)) (ucast (ce_extra_1 (snd x))) (ucast (ce_extra_2 (snd x)))
     (Some (app_name (fst x) (snd x))) (Some ''cameraserver'') (ce_timestamp (snd x))"

definition cv_arrival :: "cv_world \<times> cam_event \<Rightarrow> cv_user \<Rightarrow> cv_user option" where
  "cv_arrival x st = map_option fst (cv_handle_event (fst x) (snd x) st)"

lemma foreground_frame:
  "edges (snd (read_foreground_package w sz st)) = edges st"
  "edge_pos (snd (read_foreground_package w sz st)) = edge_pos st"
  by (simp_all add: read_foreground_package_def Let_def split: option.split)

lemma edge_log_cong: "edges st' = edges st \<Longrightarrow> edge_pos st' = edge_pos st \<Longrightarrow> edge_log st' = edge_log st"
  by (simp add: edge_log_def)

lemma foreground_log: "edge_log (snd (read_foreground_package w sz st)) = edge_log st"
  by (intro edge_log_cong foreground_frame)

lemma cv_arrival_log:
  assumes "length (edges st) = 64" and "edge_pos st < 2 ^ 31 - 1"
  shows "\<exists>st'. cv_arrival x st = Some st' \<and> length (edges st') = 64 \<and> edge_pos st' \<le> edge_pos st + 1 \<and>
    edge_log st' = last_n 64 (edge_log st @ map edge_in (filter (is_edge \<circ> snd) [x]))"
proof -
  let ?st = "snd (read_foreground_package (fst x) MAX_FOREGROUND st)"
  have l: "length (edges ?st) = 64" "edge_pos ?st = edge_pos st" "edge_log ?st = edge_log st"
    using assms by (simp_all add: foreground_frame foreground_log)
  have n: "last_n 64 (edge_log st) = edge_log st" by (simp add: last_n_def edge_log_def)
  show ?thesis
  proof (cases "is_edge (snd x)")
    case True
    then have "cv_arrival x st = Some (push_edge (edge_in x) ?st)"
      using l assms by (simp add: cv_arrival_def cv_handle_event_def is_edge_def remember_edge_def
          edge_in_def case_prod_unfold Let_def)
    moreover have "edge_log (push_edge (edge_in x) ?st) = last_n 64 (edge_log st @ [edge_in x])"
      using push_edge_log l by simp
    ultimately show ?thesis using l True by (simp add: push_edge_def)
  next
    case False
    then have "cv_arrival x st = Some ?st"
      by (simp add: cv_arrival_def cv_handle_event_def is_edge_def case_prod_unfold Let_def)
    then show ?thesis using l n False by simp
  qed
qed

lemma cv_arrivals_log:
  assumes "length (edges st) = 64" and "edge_pos st + length xs < 2 ^ 31" and "edge_log st = last_n 64 ys"
  shows "\<exists>st'. run_steps cv_arrival xs st = Some st' \<and> length (edges st') = 64 \<and>
    edge_log st' = last_n 64 (ys @ map edge_in (filter (is_edge \<circ> snd) xs))"
  using assms
proof (induction xs arbitrary: st ys)
  case Nil
  then show ?case by simp
next
  case (Cons x xs)
  let ?new = "map edge_in (filter (is_edge \<circ> snd) [x])"
  obtain st1 where st1: "cv_arrival x st = Some st1" "length (edges st1) = 64"
      "edge_pos st1 \<le> edge_pos st + 1" "edge_log st1 = last_n 64 (edge_log st @ ?new)"
    using cv_arrival_log [of st x] Cons.prems by auto
  have "edge_log st1 = last_n 64 (ys @ ?new)"
    using st1(4) Cons.prems(3) last_n_snoc [of 64 ys] by (cases "is_edge (snd x)") (simp_all add: last_n_def)
  then show ?case
    using Cons.IH [of st1 "ys @ ?new"] st1 Cons.prems(2) by auto
qed

text \<open>C15: what is printed about frame activity, to the last character: the line of the event, and
  behind it a link exactly if one of the last 64 delegation edges received belongs to the same process
  and is at most two seconds older; the link names the application of the latest such edge, and
  when there is none nothing follows the line. No sequence of fewer than 2^31 events makes the ring
  read or store outside its array.\<close>

theorem cv_link_shows_recent_edge:
  assumes "length xs < 2 ^ 31" and "is_frame (ce_event_type e)"
  shows "\<exists>st' st''. run_steps cv_arrival xs cv_user_start = Some st' \<and>
    length (edges st') = 64 \<and>
    cv_handle_event w e st' = Some (st'',
      stamp (ce_timestamp e) @ '' '' @ padr 14 (event_name (ce_event_type e)) @ '' APP='' @
      padr 38 (app_name w e) @ '' PID='' @ padr 6 (dec32 (ce_pid e)) @
      '' DETAIL='' @ cstr (ce_entity e) @ [newline] @
      (case find (\<lambda>(v, d). ce_pid d = ce_pid e \<and> ce_timestamp d \<le> ce_timestamp e \<and>
                   ce_timestamp e - ce_timestamp d \<le> 2000000000)
              (rev (last_n 64 (filter (is_edge \<circ> snd) xs))) of
         None \<Rightarrow> []
       | Some (v, d) \<Rightarrow> ''              LINK: '' @ app_name v d @
           '' -> cameraserver -> frame activity'' @ [newline]))"
proof -
  let ?es = "rev (last_n 64 (filter (is_edge \<circ> snd) xs))"
  obtain st' where st': "run_steps cv_arrival xs cv_user_start = Some st'" "length (edges st') = 64"
      "edge_log st' = last_n 64 (map edge_in (filter (is_edge \<circ> snd) xs))"
    using cv_arrivals_log [of cv_user_start xs "[]"] assms(1)
    by (auto simp: cv_user_start_def edge_log_def last_n_def)
  have log: "rev (edge_log st') = map edge_in ?es"
    by (simp add: st'(3) last_n_def rev_map drop_map)
  have f: "find_recent_edge (ce_pid e) (ce_timestamp e) (snd (read_foreground_package w MAX_FOREGROUND st')) =
      map_option edge_in (find (recent_for (ce_pid e) (ce_timestamp e) \<circ> edge_in) ?es)"
    by (simp add: find_recent_edge_log foreground_log log find_map_comp)
  have r: "recent_for (ce_pid e) (ce_timestamp e) \<circ> edge_in =
      (\<lambda>(v, d). ce_pid d = ce_pid e \<and> ce_timestamp d \<le> ce_timestamp e \<and>
        ce_timestamp e - ce_timestamp d \<le> 2000000000)"
    by (auto simp: recent_for_def edge_in_def edge_of_def CHAIN_WINDOW_NS_def)
  have ty: "ce_event_type e \<noteq> EVENT_DELEGATION_EDGE" "ce_event_type e \<noteq> EVENT_BINDER_CALL"
    "ce_event_type e \<noteq> EVENT_APP_SESSION"
    using assms(2) by (auto simp: is_frame_def cam_event_types)
  have name: "take 255 (app_name v d) = app_name v d" for v d
    using length_read_cmdline [of 256 "proc_files v" "ce_pid d"]
    by (simp add: app_name_def MAX_CMDLINE_def)
  have link: "link_line (edge_in x) = ''              LINK: '' @ app_name (fst x) (snd x) @
      '' -> cameraserver -> frame activity'' @ [newline]" for x
    by (simp add: link_line_def edge_in_def edge_of_def MAX_CMDLINE_def name)
  show ?thesis
    using st' ty assms(2)
    by (auto simp: cv_handle_event_def cv_head_def case_prod_unfold Let_def f r link split: option.split)
qed

definition cv_sample_world :: cv_world where
  "cv_sample_world = \<lparr>mono_sec = 1, mono_nsec = 0,
     proc_files = [''/proc/7/cmdline'' \<mapsto> ''com.app'' @ [NUL]], focus_line = None\<rparr>"

definition cv_sample_event :: "u32 \<Rightarrow> u64 \<Rightarrow> cam_event" where
  "cv_sample_event ty ts = cv_blank\<lparr>ce_event_type := ty, ce_timestamp := ts, ce_pid := 7\<rparr>"

lemma sample_app_name: "app_name cv_sample_world (cv_sample_event ty ts) = ''com.app''"
proof -
  have "app_name cv_sample_world (cv_blank\<lparr>ce_pid := 7\<rparr>) = ''com.app''" by code_simp
  then show ?thesis by (simp add: app_name_def cv_sample_event_def)
qed

lemma cv_link_shows_recent_edge_witness:
  "\<exists>st' st'' line.
     run_steps cv_arrival [(cv_sample_world, cv_sample_event EVENT_DELEGATION_EDGE 1000000000)]
       cv_user_start = Some st' \<and>
     cv_handle_event cv_sample_world (cv_sample_event EVENT_FRAME_DONE 2000000000) st' =
       Some (st'', line @ ''              LINK: com.app -> cameraserver -> frame activity'' @ [newline])"
proof -
  let ?d = "cv_sample_event EVENT_DELEGATION_EDGE 1000000000"
    and ?e = "cv_sample_event EVENT_FRAME_DONE 2000000000"
  have "is_edge ?d" "is_frame (ce_event_type ?e)"
    by (simp_all add: is_edge_def is_frame_def cv_sample_event_def)
  then show ?thesis
    using cv_link_shows_recent_edge [of "[(cv_sample_world, ?d)]" ?e cv_sample_world]
    by (auto simp: last_n_def sample_app_name [simplified cv_sample_event_def] cv_sample_event_def
        simp del: run_steps.simps)
qed

end
