(* ===== verification/Cam_Suite.thy ===== *)
theory Cam_Suite
  imports Cam_Trace
begin

text \<open>
  The camera tools without shared state between their events: \<open>cam_ident\<close>, \<open>cam_control\<close> and
  \<open>cam_buffer\<close> of \<open>cam_ident/\<close>, and the older \<open>cam_ident\<close> of \<open>cam_data_tracking/\<close>. All
  programs fill the same record in the same way; \<open>tgid\<close> receives the low half of
  \<open>bpf_get_current_pid_tgid\<close>.
\<close>

section \<open>Filling an event\<close>

definition fill_base ::
  "('e, 'z) probe_env_scheme \<Rightarrow> nat \<Rightarrow> u32 \<Rightarrow> u32 \<Rightarrow> u32 \<Rightarrow> u64 \<Rightarrow> u64 \<Rightarrow> 'y cam_base_scheme \<Rightarrow> 'y cam_base_scheme" where
  "fill_base env k event_type camera_id buffer_id extra_1 extra_2 e = e\<lparr>
     ce_timestamp := ktime_ns env k, ce_pid := cur_pid env, ce_tgid := cur_tid env,
     ce_uid := cur_uid env, ce_event_type := event_type, ce_camera_id := camera_id,
     ce_buffer_id := buffer_id, ce_extra_1 := extra_1, ce_extra_2 := extra_2,
     ce_comm := cur_comm env\<rparr>"

text \<open>Reserve, fill, clear \<open>entity\<close>, submit; \<open>k\<close> is the number of the clock reading.\<close>

definition send_event ::
  "cam_event probe_env \<Rightarrow> nat \<Rightarrow> u32 \<Rightarrow> u32 \<Rightarrow> u32 \<Rightarrow> u64 \<Rightarrow> u64 \<Rightarrow> cam_event list" where
  "send_event env k event_type camera_id buffer_id extra_1 extra_2 =
     (case reserve env 0 of
        None \<Rightarrow> []
      | Some e \<Rightarrow> [(fill_base env k event_type camera_id buffer_id extra_1 extra_2 e)
                     \<lparr>ce_entity := replicate 16 NUL\<rparr>])"

lemma send_event_fields:
  assumes "e \<in> set (send_event env k ty cam buf x1 x2)"
  shows "ce_timestamp e = ktime_ns env k \<and> ce_pid e = cur_pid env \<and> ce_tgid e = cur_tid env \<and>
    ce_uid e = cur_uid env \<and> ce_comm e = cur_comm env \<and> ce_event_type e = ty \<and>
    ce_camera_id e = cam \<and> ce_buffer_id e = buf \<and> ce_extra_1 e = x1 \<and> ce_extra_2 e = x2 \<and>
    ce_entity e = replicate 16 NUL"
  using assms by (auto simp: send_event_def fill_base_def split: option.splits)

section \<open>cam_ident\<close>

record ci_maps =
  pid_to_camera :: "u32 \<rightharpoonup> u32"
  pid_to_comm :: "u32 \<rightharpoonup> char list"

definition ci_context_state :: "cam_event probe_env \<Rightarrow> context_args \<Rightarrow> ci_maps \<Rightarrow> ci_maps \<times> cam_event list" where
  "ci_context_state env ctx m =
     (let es = send_event env 0 (if cs_state ctx = 0 then EVENT_CAMERA_CLOSE else EVENT_CAMERA_OPEN)
                 (ucast (cs_ctx ctx) AND 0xFFFF) 0 (cs_ctx ctx) (ucast (cs_state ctx))
      in if es = [] then (m, [])
         else (m\<lparr>pid_to_camera := bpf_map_update (map_ok env 0) (cur_pid env)
                   (ce_camera_id (hd es)) (pid_to_camera m),
                 pid_to_comm := bpf_map_update (map_ok env 1) (cur_pid env) (cur_comm env)
                   (pid_to_comm m)\<rparr>, es))"

text \<open>The arguments of \<open>cam_flush_req\<close>: type and request.\<close>

definition ci_flush_req :: "cam_event probe_env \<Rightarrow> u32 \<Rightarrow> u64 \<Rightarrow> ci_maps \<Rightarrow> ci_maps \<times> cam_event list" where
  "ci_flush_req env type req_id m =
     (let es = send_event env 0 EVENT_FLUSH 0 0 req_id (ucast type)
      in if es = [] then (m, [])
         else (m\<lparr>pid_to_camera := bpf_map_delete (cur_pid env) (pid_to_camera m)\<rparr>, es))"

definition ci_event_name :: "u32 \<Rightarrow> string" where
  "ci_event_name ty =
     (if ty = EVENT_CAMERA_OPEN then ''CAMERA_OPEN''
      else if ty = EVENT_CAMERA_CLOSE then ''CAMERA_CLOSE''
      else if ty = EVENT_FLUSH then ''FLUSH''
      else ''UNKNOWN'')"

definition ci_handle_event :: "cam_event \<Rightarrow> string" where
  "ci_handle_event e =
     stamp (ce_timestamp e) @ '' '' @ padr 14 (ci_event_name (ce_event_type e)) @
     '' PID='' @ padr 6 (dec32 (ce_pid e)) @ '' UID='' @ padr 6 (dec32 (ce_uid e)) @
     '' COMM='' @ padr 16 (cstr (ce_comm e)) @ '' CTX=0x'' @ uhex (unat (ce_extra_1 e)) @
     '' STATE='' @ dec32 (ce_extra_2 e) @ [newline]"

section \<open>cam_control\<close>

definition cc_apply_req :: "cam_event probe_env \<Rightarrow> u32 \<Rightarrow> u64 \<Rightarrow> u32 \<Rightarrow> cam_event list" where
  "cc_apply_req env dev req_id link_hdl =
     send_event env 0 EVENT_REQ_APPLIED dev 0 req_id (ucast link_hdl)"

definition cc_add_req :: "cam_event probe_env \<Rightarrow> u32 \<Rightarrow> u64 \<Rightarrow> u32 \<Rightarrow> u32 \<Rightarrow> cam_event list" where
  "cc_add_req env dev_id req_id slot_id delay =
     send_event env 0 EVENT_REQ_ADDED dev_id slot_id req_id (ucast delay)"

definition cc_submit_to_hw :: "cam_event probe_env \<Rightarrow> u64 \<Rightarrow> cam_event list" where
  "cc_submit_to_hw env req_id = send_event env 0 EVENT_REQ_SUBMITTED 0 0 req_id 0"

definition cc_event_name :: "u32 \<Rightarrow> string" where
  "cc_event_name ty =
     (if ty = EVENT_REQ_ADDED then ''REQ_ADDED''
      else if ty = EVENT_REQ_APPLIED then ''REQ_APPLIED''
      else if ty = EVENT_REQ_SUBMITTED then ''REQ_SUBMITTED''
      else ''UNKNOWN'')"

definition cc_handle_event :: "cam_event \<Rightarrow> string" where
  "cc_handle_event e =
     stamp (ce_timestamp e) @ '' '' @ padr 14 (cc_event_name (ce_event_type e)) @
     '' PID='' @ padr 6 (dec32 (ce_pid e)) @ '' CAM='' @ padr 4 (dec32 (ce_camera_id e)) @
     '' REQ='' @ padr 8 (dec32 (ce_extra_1 e)) @ '' EXTRA='' @ dec32 (ce_extra_2 e) @ [newline]"

section \<open>cam_buffer\<close>

record buffer_info =
  bi_timestamp :: u64
  bi_owner_pid :: u32
  bi_state :: u32

definition BUF_STATE_FILLED :: u32 where "BUF_STATE_FILLED = 1"

type_synonym buffer_map = "u64 \<rightharpoonup> buffer_info"

definition cb_buf_done ::
  "cam_event probe_env \<Rightarrow> u64 \<Rightarrow> u32 \<Rightarrow> buffer_map \<Rightarrow> buffer_map \<times> cam_event list" where
  "cb_buf_done env request link_hdl m =
     (let bi = \<lparr>bi_timestamp = ktime_ns env 0, bi_owner_pid = cur_pid env, bi_state = BUF_STATE_FILLED\<rparr>
      in (bpf_map_update (map_ok env 0) request bi m,
          send_event env 1 EVENT_BUFFER_FILLED 0 0 request (ucast link_hdl)))"

definition cb_irq_activated :: "cam_event probe_env \<Rightarrow> u32 \<Rightarrow> cam_event list" where
  "cb_irq_activated env irq_type = send_event env 0 EVENT_BUFFER_SHARED 0 0 (ucast irq_type) 0"

definition cb_dma_buf_export :: "cam_event probe_env \<Rightarrow> cam_event list" where
  "cb_dma_buf_export env = send_event env 0 EVENT_BUFFER_SHARED 0 0 0 0"

definition cb_event_name :: "u32 \<Rightarrow> string" where
  "cb_event_name ty =
     (if ty = EVENT_BUFFER_FILLED then ''BUF_FILLED''
      else if ty = EVENT_BUFFER_SHARED then ''BUF_SHARED''
      else ''UNKNOWN'')"

definition cb_handle_event :: "cam_event \<Rightarrow> string" where
  "cb_handle_event e =
     stamp (ce_timestamp e) @ '' '' @ padr 12 (cb_event_name (ce_event_type e)) @
     '' PID='' @ padr 6 (dec32 (ce_pid e)) @ '' REQ='' @ padr 8 (dec32 (ce_extra_1 e)) @
     '' EXTRA='' @ dec32 (ce_extra_2 e) @ [newline]"

section \<open>cam_data_tracking\<close>

text \<open>The tests of the command name read the first bytes of the array of 16.\<close>

definition comm_is_cameraserver :: "char list \<Rightarrow> bool" where
  "comm_is_cameraserver comm = has_prefix ''cameraserver'' comm"

definition comm_is_camera_app :: "char list \<Rightarrow> bool" where
  "comm_is_camera_app comm = has_prefix ''com.android'' comm"

definition cd_binder :: "cam_base probe_env \<Rightarrow> (u32 \<rightharpoonup> u32) \<Rightarrow> (u32 \<rightharpoonup> u32) \<times> cam_base list" where
  "cd_binder env m =
     (if \<not> comm_is_cameraserver (cur_comm env) \<and> \<not> comm_is_camera_app (cur_comm env) then (m, [])
      else (case reserve env 0 of
              None \<Rightarrow> (m, [])
            | Some e \<Rightarrow> (bpf_map_update (map_ok env 0) (cur_pid env) 0 m,
                         [fill_base env 0 EVENT_CAMERA_BINDER_REQ 0 0 0 0 e])))"

definition cd_openat :: "cam_base probe_env \<Rightarrow> (u32 \<rightharpoonup> u32) \<Rightarrow> cam_base list" where
  "cd_openat env m =
     (case m (cur_pid env) of
        None \<Rightarrow> []
      | Some _ \<Rightarrow> (case reserve env 0 of
                     None \<Rightarrow> []
                   | Some e \<Rightarrow> [fill_base env 0 EVENT_CAMERA_OPEN 0 0 0 0 e]))"

definition cd_event_name :: "u32 \<Rightarrow> string" where
  "cd_event_name ty =
     (if ty = EVENT_CAMERA_OPEN then ''CAMERA_OPEN''
      else if ty = EVENT_CAMERA_CLOSE then ''CAMERA_CLOSE''
      else if ty = EVENT_CAMERA_BINDER_REQ then ''BINDER_REQ''
      else ''UNKNOWN'')"

definition cd_handle_event :: "cam_base \<Rightarrow> string" where
  "cd_handle_event e =
     stamp (ce_timestamp e) @ '' '' @ padr 16 (cd_event_name (ce_event_type e)) @
     '' PID='' @ padr 6 (dec32 (ce_pid e)) @ '' UID='' @ padr 6 (dec32 (ce_uid e)) @
     '' COMM='' @ padr 16 (cstr (ce_comm e)) @ '' CAM='' @ dec32 (ce_camera_id e) @ [newline]"

datatype cd_point = Cd_Binder | Cd_Openat

definition cd_step ::
  "cam_base probe_env \<times> cd_point \<Rightarrow> (u32 \<rightharpoonup> u32) \<Rightarrow> (u32 \<rightharpoonup> u32) \<times> cam_base list" where
  "cd_step x m = (case snd x of Cd_Binder \<Rightarrow> cd_binder (fst x) m | Cd_Openat \<Rightarrow> (m, cd_openat (fst x) m))"

section \<open>The maps of cam_ident\<close>

datatype ci_point = Ci_State context_args | Ci_Flush u32 u64

definition ci_step :: "cam_event probe_env \<times> ci_point \<Rightarrow> ci_maps \<Rightarrow> ci_maps \<times> cam_event list" where
  "ci_step x m =
     (case snd x of
        Ci_State ctx \<Rightarrow> ci_context_state (fst x) ctx m
      | Ci_Flush type req_id \<Rightarrow> ci_flush_req (fst x) type req_id m)"

text \<open>What a reader of the events knows about the processes.\<close>

definition ci_replay :: "(u32 \<rightharpoonup> u32) \<Rightarrow> cam_event list \<Rightarrow> (u32 \<rightharpoonup> u32)" where
  "ci_replay = foldl (\<lambda>m e. if ce_event_type e = EVENT_FLUSH then m(ce_pid e := None)
                            else m(ce_pid e \<mapsto> ce_camera_id e))"

definition ci_replay_comm :: "(u32 \<rightharpoonup> char list) \<Rightarrow> cam_event list \<Rightarrow> (u32 \<rightharpoonup> char list)" where
  "ci_replay_comm = foldl (\<lambda>m e. if ce_event_type e = EVENT_FLUSH then m
                                 else m(ce_pid e \<mapsto> ce_comm e))"

lemma send_event_cases:
  "send_event env k ty cam buf x1 x2 = [] \<or>
   (\<exists>e. send_event env k ty cam buf x1 x2 = [e] \<and> ce_pid e = cur_pid env \<and> ce_event_type e = ty \<and>
      ce_camera_id e = cam \<and> ce_comm e = cur_comm env)"
  by (cases "reserve env 0") (simp_all add: send_event_def fill_base_def)

lemma ci_step_replay:
  assumes "\<forall>i. map_ok (fst x) i"
  shows "pid_to_camera (fst (ci_step x m)) = ci_replay (pid_to_camera m) (snd (ci_step x m)) \<and>
    pid_to_comm (fst (ci_step x m)) = ci_replay_comm (pid_to_comm m) (snd (ci_step x m))"
proof (cases "snd x")
  case (Ci_State ctx)
  then show ?thesis
    using assms send_event_cases [of "fst x" 0
        "if cs_state ctx = 0 then EVENT_CAMERA_CLOSE else EVENT_CAMERA_OPEN"
        "ucast (cs_ctx ctx) AND 0xFFFF" 0 "cs_ctx ctx" "ucast (cs_state ctx)"]
    by (auto simp: ci_step_def ci_context_state_def Let_def ci_replay_def ci_replay_comm_def
        cam_event_types)
next
  case (Ci_Flush type req_id)
  then show ?thesis
    using send_event_cases [of "fst x" 0 EVENT_FLUSH 0 0 req_id "ucast type"]
    by (auto simp: ci_step_def ci_flush_req_def Let_def ci_replay_def ci_replay_comm_def bpf_map_delete_def)
qed

lemma dom_ci_replay_comm: "dom f \<subseteq> dom (ci_replay_comm f es)"
proof (induction es arbitrary: f)
  case Nil
  then show ?case by (simp add: ci_replay_comm_def)
next
  case (Cons e es)
  let ?g = "if ce_event_type e = EVENT_FLUSH then f else f(ce_pid e \<mapsto> ce_comm e)"
  have "dom f \<subseteq> dom ?g" by auto
  also have "\<dots> \<subseteq> dom (ci_replay_comm ?g es)" by (rule Cons)
  finally show ?case by (simp add: ci_replay_comm_def)
qed

text \<open>C39: the maps of \<open>cam_ident\<close> and its events tell the same story: as long as no
  update is rejected, the map of cameras is what a reader of the events computes, the camera of the
  last change of context, until the process flushes; the map of command names is never cleaned.\<close>

theorem ci_maps_follow_events:
  assumes "\<forall>x \<in> set xs. \<forall>i. map_ok (fst x) i"
  shows "pid_to_camera (fst (run_probe ci_step m xs)) =
      ci_replay (pid_to_camera m) (snd (run_probe ci_step m xs)) \<and>
    pid_to_comm (fst (run_probe ci_step m xs)) =
      ci_replay_comm (pid_to_comm m) (snd (run_probe ci_step m xs)) \<and>
    dom (pid_to_comm m) \<subseteq> dom (pid_to_comm (fst (run_probe ci_step m xs)))"
  using assms
proof (induction xs arbitrary: m)
  case Nil
  then show ?case by (simp add: run_probe.simps(1) ci_replay_def ci_replay_comm_def)
next
  case (Cons x xs)
  have "ci_replay f (as @ bs) = ci_replay (ci_replay f as) bs"
    "ci_replay_comm g (as @ bs) = ci_replay_comm (ci_replay_comm g as) bs" for f g as bs
    by (simp_all add: ci_replay_def ci_replay_comm_def)
  then have "pid_to_camera (fst (run_probe ci_step m (x # xs))) =
      ci_replay (pid_to_camera m) (snd (run_probe ci_step m (x # xs))) \<and>
    pid_to_comm (fst (run_probe ci_step m (x # xs))) =
      ci_replay_comm (pid_to_comm m) (snd (run_probe ci_step m (x # xs)))"
    using Cons.IH [of "fst (ci_step x m)"] Cons.prems ci_step_replay [of x m] by simp
  then show ?case by (metis dom_ci_replay_comm)
qed

definition suite_env :: "'e \<Rightarrow> string \<Rightarrow> u64 \<Rightarrow> 'e probe_env" where
  "suite_env e comm t = \<lparr>ktime_ns = (\<lambda>k. t + word_of_nat k), pid_tgid = 0x0000000700000008, uid_gid = 10077,
     cur_comm = comm @ replicate (16 - length comm) NUL, reserve = (\<lambda>_. Some e), map_ok = (\<lambda>_. True)\<rparr>"

definition base_blank :: cam_base where
  "base_blank = \<lparr>ce_timestamp = 0, ce_pid = 0, ce_tgid = 0, ce_uid = 0, ce_comm = replicate 16 NUL,
     ce_event_type = 0, ce_camera_id = 0, ce_buffer_id = 0, ce_extra_1 = 0, ce_extra_2 = 0\<rparr>"

definition event_blank :: cam_event where
  "event_blank = \<lparr>ce_timestamp = 0, ce_pid = 0, ce_tgid = 0, ce_uid = 0, ce_comm = replicate 16 NUL,
     ce_event_type = 0, ce_camera_id = 0, ce_buffer_id = 0, ce_extra_1 = 0, ce_extra_2 = 0,
     ce_entity = replicate 16 NUL\<rparr>"

definition ci_sample :: "(cam_event probe_env \<times> ci_point) list" where
  "ci_sample = [(suite_env event_blank ''provider'' 5, Ci_Flush 1 9),
     (suite_env event_blank ''provider'' 8, Ci_State \<lparr>cs_ctx = 0xFFFFFF8012341234, cs_state = 1\<rparr>)]"

lemma ci_maps_follow_events_witness:
  "pid_to_camera (fst (run_probe ci_step \<lparr>pid_to_camera = Map.empty, pid_to_comm = Map.empty\<rparr> ci_sample)) 7 =
     Some 0x1234 \<and>
   length (snd (run_probe ci_step \<lparr>pid_to_camera = Map.empty, pid_to_comm = Map.empty\<rparr> ci_sample)) = 2"
proof -
  let ?m = "\<lparr>pid_to_camera = Map.empty, pid_to_comm = Map.empty\<rparr>"
  have "\<forall>x \<in> set ci_sample. \<forall>i. map_ok (fst x) i" by (simp add: ci_sample_def suite_env_def)
  then have "pid_to_camera (fst (run_probe ci_step ?m ci_sample)) =
      ci_replay Map.empty (snd (run_probe ci_step ?m ci_sample))"
    using ci_maps_follow_events [of ci_sample ?m] by simp
  moreover have "ci_replay Map.empty (snd (run_probe ci_step ?m ci_sample)) 7 = Some 0x1234"
    "length (snd (run_probe ci_step ?m ci_sample)) = 2"
    by (simp_all add: ci_sample_def suite_env_def ci_step_def ci_flush_req_def ci_context_state_def
        send_event_def fill_base_def ci_replay_def Let_def cam_event_types cur_pid_def run_probe.simps(1))
  ultimately show ?thesis by simp
qed

section \<open>Processes known to cam_data_tracking\<close>

definition cd_camera_call :: "cam_base probe_env \<times> cd_point \<Rightarrow> bool" where
  "cd_camera_call x \<longleftrightarrow> snd x = Cd_Binder \<and> reserve (fst x) 0 \<noteq> None \<and>
     (has_prefix ''cameraserver'' (cur_comm (fst x)) \<or> has_prefix ''com.android'' (cur_comm (fst x)))"

lemma cd_step_map:
  assumes "map_ok (fst x) 0"
  shows "dom (fst (cd_step x m)) = (if cd_camera_call x then insert (cur_pid (fst x)) (dom m) else dom m)"
  using assms
  by (auto simp: cd_step_def cd_binder_def cd_camera_call_def comm_is_cameraserver_def
      comm_is_camera_app_def split: cd_point.split option.split)

lemma cd_run_map:
  "\<forall>x \<in> set xs. map_ok (fst x) 0 \<Longrightarrow>
   dom (fst (run_probe cd_step m xs)) = (\<lambda>x. cur_pid (fst x)) ` set (filter cd_camera_call xs) \<union> dom m"
  by (induction xs arbitrary: m) (auto simp: run_probe.simps(1) cd_step_map split: if_splits)

text \<open>C40: the older tool reports a camera open for every file a process opens, once the
  process has made a binder call under the name of the camera server or of an Android application,
  and for no other process; the name of the file plays no role.\<close>

theorem cd_open_exact:
  assumes "\<forall>x \<in> set xs. map_ok (fst x) 0"
  shows "(\<exists>e. snd (cd_step (env, Cd_Openat) (fst (run_probe cd_step Map.empty xs))) = [e] \<and>
        ce_event_type e = EVENT_CAMERA_OPEN \<and> ce_pid e = cur_pid env) \<longleftrightarrow>
    reserve env 0 \<noteq> None \<and>
    (\<exists>x \<in> set xs. cur_pid (fst x) = cur_pid env \<and> snd x = Cd_Binder \<and> reserve (fst x) 0 \<noteq> None \<and>
       (has_prefix ''cameraserver'' (cur_comm (fst x)) \<or> has_prefix ''com.android'' (cur_comm (fst x))))"
proof -
  let ?m = "fst (run_probe cd_step Map.empty xs)"
  have "cur_pid env \<in> dom ?m \<longleftrightarrow> (\<exists>x \<in> set xs. cd_camera_call x \<and> cur_pid (fst x) = cur_pid env)"
    using cd_run_map [OF assms, of Map.empty] by (auto intro: rev_image_eqI)
  then have "?m (cur_pid env) \<noteq> None \<longleftrightarrow> (\<exists>x \<in> set xs. cd_camera_call x \<and> cur_pid (fst x) = cur_pid env)"
    by (simp only: domIff)
  then show ?thesis
    by (auto simp: cd_step_def cd_openat_def fill_base_def cd_camera_call_def split: option.split)
qed

lemma cd_open_exact_witness:
  "\<exists>e. snd (cd_step (suite_env base_blank ''com.android.cam'' 9, Cd_Openat)
      (fst (run_probe cd_step Map.empty [(suite_env base_blank ''com.android.cam'' 5, Cd_Binder)]))) = [e] \<and>
    ce_event_type e = EVENT_CAMERA_OPEN \<and> ce_pid e = 7"
  using cd_open_exact [of "[(suite_env base_blank ''com.android.cam'' 5, Cd_Binder)]"
      "suite_env base_blank ''com.android.cam'' 9"]
  by (auto simp: suite_env_def cur_pid_def has_prefix_def)

end
