(* ===== verification/Cam_Identity.thy ===== *)
theory Cam_Identity
  imports Cam_Suite
begin

text \<open>
  \<open>cam_ident/cam_identity\<close>, which tells the application behind a camera session: the binder probe
  with its two maps, the context probe, and the report.
\<close>

section \<open>Kernel programs\<close>

text \<open>\<open>id_config\<close> is the array \<open>config_map\<close>, \<open>id_recent\<close> and \<open>id_seen\<close> are the hash maps
  \<open>recent_caller\<close> (one entry, under key 0) and \<open>seen_callers\<close>.\<close>

record id_maps =
  id_config :: "u32 \<rightharpoonup> u32"
  id_recent :: "u32 \<rightharpoonup> u32"
  id_seen :: "u32 \<rightharpoonup> u64"

definition id_start :: "u32 \<Rightarrow> id_maps" where
  "id_start camserver = \<lparr>id_config = array_map1 camserver, id_recent = Map.empty, id_seen = Map.empty\<rparr>"

text \<open>The test whether a caller was seen in the last half second.\<close>

definition seen_just_now :: "u64 \<Rightarrow> u64 \<Rightarrow> bool" where
  "seen_just_now now t \<longleftrightarrow> now - t < 500000000"

definition id_binder ::
  "cam_event probe_env \<Rightarrow> binder_args \<Rightarrow> id_maps \<Rightarrow> id_maps \<times> cam_event list" where
  "id_binder env args m =
     (if bt_reply args \<noteq> 0 then (m, [])
      else (case id_config m 0 of
              None \<Rightarrow> (m, [])
            | Some camserver_pid \<Rightarrow>
                if camserver_pid = 0 then (m, [])
                else if bt_to_proc args \<noteq> camserver_pid then (m, [])
                else if cur_pid env = 0 then (m, [])
                else if cur_uid env < 10000 then (m, [])
                else
                  (let now = ktime_ns env 0;
                       seen = (case id_seen m (cur_pid env) of
                                 Some t \<Rightarrow> seen_just_now now t | None \<Rightarrow> False)
                   in if seen then (m, [])
                      else
                        (m\<lparr>id_seen := bpf_map_update (map_ok env 0) (cur_pid env) now (id_seen m),
                           id_recent := bpf_map_update (map_ok env 1) 0 (cur_pid env) (id_recent m)\<rparr>,
                         case reserve env 0 of
                           None \<Rightarrow> []
                         | Some e \<Rightarrow>
                             [e\<lparr>ce_timestamp := now, ce_pid := cur_pid env, ce_tgid := cur_pid env,
                                ce_uid := cur_uid env, ce_event_type := EVENT_BINDER_CALL,
                                ce_camera_id := 0, ce_buffer_id := 0,
                                ce_extra_1 := ucast (bt_to_proc args), ce_extra_2 := ucast (bt_code args),
                                ce_comm := cur_comm env, ce_entity := replicate 16 NUL\<rparr>]))))"

definition id_context_state :: "cam_event probe_env \<Rightarrow> context_args \<Rightarrow> id_maps \<Rightarrow> cam_event list" where
  "id_context_state env ctx m =
     (if cs_state ctx = 0 then []
      else (let app_pid = (case id_recent m 0 of Some p \<Rightarrow> p | None \<Rightarrow> 0)
            in case reserve env 0 of
                 None \<Rightarrow> []
               | Some e \<Rightarrow>
                   [e\<lparr>ce_timestamp := ktime_ns env 0, ce_pid := app_pid, ce_tgid := app_pid,
                      ce_uid := cur_uid env, ce_event_type := EVENT_APP_SESSION,
                      ce_camera_id := ucast (cs_ctx ctx) AND 0xFFFF, ce_buffer_id := 0,
                      ce_extra_1 := ucast (cs_state ctx), ce_extra_2 := ucast app_pid,
                      ce_comm := cur_comm env, ce_entity := replicate 16 NUL\<rparr>]))"

datatype id_point = Id_Binder binder_args | Id_State context_args

type_synonym id_input = "cam_event probe_env \<times> id_point"

definition id_step :: "id_input \<Rightarrow> id_maps \<Rightarrow> id_maps \<times> cam_event list" where
  "id_step x m =
     (case snd x of
        Id_Binder args \<Rightarrow> id_binder (fst x) args m
      | Id_State ctx \<Rightarrow> (m, id_context_state (fst x) ctx m))"

section \<open>The report\<close>

definition id_handle_event :: "(string \<rightharpoonup> char list) \<Rightarrow> cam_event \<Rightarrow> string" where
  "id_handle_event files e =
     (if ce_event_type e = EVENT_BINDER_CALL
      then stamp (ce_timestamp e) @ '' BINDER_CALL   APP='' @
             padr 40 (snd (read_cmdline files (ce_pid e) 256)) @ '' PID='' @ padr 6 (dec32 (ce_pid e)) @
             '' -> cameraserver'' @ [newline]
      else if ce_event_type e = EVENT_APP_SESSION
      then (let app_pid = ucast (ce_extra_2 e) :: u32;
                appname = (if 0 < app_pid then snd (read_cmdline files app_pid 256) else ''<unknown>'')
            in stamp (ce_timestamp e) @ '' CAM_SESSION   APP='' @ padr 40 appname @ '' PID='' @
               padr 6 (dec32 app_pid) @ '' CAM=0x'' @ uhex (unat (ce_camera_id e)) @ '' STATE='' @
               dec32 (ce_extra_1 e) @ [newline])
      else [])"

section \<open>Reports of calls\<close>

definition id_call :: "id_maps \<Rightarrow> id_input \<Rightarrow> bool" where
  "id_call m x \<longleftrightarrow>
     (case (snd x, id_config m 0) of
        (Id_Binder args, Some c) \<Rightarrow> bt_reply args = 0 \<and> c \<noteq> 0 \<and> bt_to_proc args = c \<and>
          cur_pid (fst x) \<noteq> 0 \<and> 10000 \<le> cur_uid (fst x)
      | _ \<Rightarrow> False) \<and>
     (case id_seen m (cur_pid (fst x)) of
        Some t \<Rightarrow> \<not> seen_just_now (ktime_ns (fst x) 0) t | None \<Rightarrow> True)"

abbreviation id_remember :: "id_input \<Rightarrow> id_maps \<Rightarrow> id_maps" where
  "id_remember x m \<equiv> m\<lparr>
     id_seen := bpf_map_update (map_ok (fst x) 0) (cur_pid (fst x)) (ktime_ns (fst x) 0) (id_seen m),
     id_recent := bpf_map_update (map_ok (fst x) 1) 0 (cur_pid (fst x)) (id_recent m)\<rparr>"

text \<open>What the guards decide: an event, the two map updates, or nothing at all.\<close>

lemma id_binder_silent: "\<not> id_call m (env, Id_Binder args) \<Longrightarrow> snd (id_binder env args m) = []"
  unfolding id_binder_def id_call_def
  by (cases "id_config m 0"; cases "id_seen m (cur_pid env)"; auto simp: Let_def not_le [symmetric])

lemma id_binder_frame: "\<not> id_call m (env, Id_Binder args) \<Longrightarrow> fst (id_binder env args m) = m"
  unfolding id_binder_def id_call_def
  by (cases "id_config m 0"; cases "id_seen m (cur_pid env)"; auto simp: Let_def not_le [symmetric])

lemma id_binder_maps:
  "id_call m (env, Id_Binder args) \<Longrightarrow> fst (id_binder env args m) = id_remember (env, Id_Binder args) m"
  unfolding id_binder_def id_call_def
  by (cases "id_config m 0"; cases "id_seen m (cur_pid env)"; auto simp: Let_def not_le [symmetric])

lemma id_binder_report:
  "id_call m (env, Id_Binder args) \<Longrightarrow> reserve env 0 = Some e0 \<Longrightarrow>
     \<exists>e. snd (id_binder env args m) = [e] \<and> ce_event_type e = EVENT_BINDER_CALL \<and> ce_pid e = cur_pid env"
  unfolding id_binder_def id_call_def
  by (cases "id_config m 0"; cases "id_seen m (cur_pid env)"; auto simp: Let_def not_le [symmetric])

lemma id_context_state_type: "e \<in> set (id_context_state env ctx m) \<Longrightarrow> ce_event_type e = EVENT_APP_SESSION"
  by (auto simp: id_context_state_def Let_def split: option.splits if_splits)

lemma id_call_state: "\<not> id_call m (env, Id_State ctx)"
  by (simp add: id_call_def)

lemma id_step_maps: "fst (id_step x m) = (if id_call m x then id_remember x m else m)"
  by (cases x; cases "snd x") (auto simp: id_step_def id_binder_frame id_binder_maps id_call_state)

definition id_calls :: "id_input \<Rightarrow> id_maps \<Rightarrow> id_maps \<times> cam_event list" where
  "id_calls x m = (fst (id_step x m), filter (\<lambda>e. ce_event_type e = EVENT_BINDER_CALL) (snd (id_step x m)))"

lemma id_calls_event: "snd (id_calls x m) \<noteq> [] \<Longrightarrow> id_call m x"
  by (cases x; cases "snd x"; cases "id_call m x")
    (auto simp: id_calls_def id_step_def filter_empty_conv cam_event_types id_binder_silent
      dest!: id_context_state_type)

lemma id_calls_reported:
  assumes "reserve (fst x) 0 \<noteq> None"
  shows "\<exists>e. snd (id_calls x m) = (if id_call m x then [e] else []) \<and> ce_pid e = cur_pid (fst x)"
proof (cases "id_call m x")
  case True
  then obtain env args where x: "x = (env, Id_Binder args)"
    by (cases x; cases "snd x") (auto simp: id_call_state)
  obtain e0 where "reserve env 0 = Some e0" using assms x by auto
  then show ?thesis using True id_binder_report [of m env args e0] x
    by (auto simp: id_calls_def id_step_def)
next
  case False
  then show ?thesis using id_calls_event [of x m] by (auto intro: exI [of _ "event_blank\<lparr>ce_pid := cur_pid (fst x)\<rparr>"])
qed

interpretation identity: dedup_window id_calls id_seen "\<lambda>x. cur_pid (fst x)"
  "\<lambda>x. ktime_ns (fst x) 0" "\<lambda>x. map_ok (fst x) 0" 500000000
proof
  fix s :: id_maps and x :: id_input and t
  assume "id_seen s (cur_pid (fst x)) = Some t" and "ktime_ns (fst x) 0 - t < 500000000"
  then have "\<not> id_call s x" by (simp add: id_call_def seen_just_now_def)
  then show "snd (id_calls x s) = []" using id_calls_event by blast
next
  fix s :: id_maps and x :: id_input
  assume "snd (id_calls x s) \<noteq> []" and "map_ok (fst x) 0"
  then show "id_seen (fst (id_calls x s)) (cur_pid (fst x)) = Some (ktime_ns (fst x) 0)"
    using id_calls_event [of x s] by (simp add: id_calls_def id_step_maps)
next
  fix s :: id_maps and x :: id_input and k
  show "id_seen (fst (id_calls x s)) k = id_seen s k \<or>
    (k = cur_pid (fst x) \<and> id_seen (fst (id_calls x s)) k = Some (ktime_ns (fst x) 0))"
    by (auto simp: id_calls_def id_step_maps bpf_map_update_def)
qed

section \<open>Sessions\<close>

text \<open>The process of the last call that passed all guards, 0 before the first.\<close>

lemma id_config_run: "id_config (fst (run_probe id_step m xs)) = id_config m"
proof (induction xs arbitrary: m)
  case Nil
  then show ?case by (simp add: run_probe.simps(1))
next
  case (Cons x xs)
  have "id_config (fst (id_step x m)) = id_config m" by (simp add: id_step_maps)
  then show ?case using Cons by simp
qed

lemma id_recent_run:
  assumes "\<forall>x \<in> set xs. \<forall>i. map_ok (fst x) i" and "\<forall>x \<in> set xs. reserve (fst x) 0 \<noteq> None"
  shows "id_recent (fst (run_probe id_step m xs)) 0 =
    (let calls = filter (\<lambda>e. ce_event_type e = EVENT_BINDER_CALL) (snd (run_probe id_step m xs))
     in if calls = [] then id_recent m 0 else Some (ce_pid (last calls)))"
  using assms
proof (induction xs arbitrary: m)
  case Nil
  then show ?case by (simp add: run_probe.simps(1))
next
  case (Cons x xs)
  obtain e where e: "snd (id_calls x m) = (if id_call m x then [e] else [])" "ce_pid e = cur_pid (fst x)"
    using id_calls_reported [of x m] Cons.prems by auto
  have r: "id_recent (fst (id_step x m)) 0 = (if id_call m x then Some (ce_pid e) else id_recent m 0)"
    using Cons.prems e by (simp add: id_step_maps)
  have es: "filter (\<lambda>e. ce_event_type e = EVENT_BINDER_CALL) (snd (id_step x m)) =
      (if id_call m x then [e] else [])"
    using e(1) by (simp add: id_calls_def)
  show ?case
    using Cons.IH [of "fst (id_step x m)"] Cons.prems es r by (simp add: Let_def)
qed

text \<open>C38: the tool tells the right application, as far as it can know it: as long as no
  update and no event is lost, a session is attributed to the process of the last binder call it
  reported, or to process 0 if there was none; its reports of one process are at least half a second
  apart, and a context that closes is never reported as a session.\<close>

theorem id_session_of_last_call:
  assumes "\<forall>x \<in> set xs. (\<forall>i. map_ok (fst x) i) \<and> reserve (fst x) 0 \<noteq> None"
    and "sorted_wrt (\<lambda>x y. ktime_ns (fst x) 0 \<le> ktime_ns (fst y) 0) xs"
    and "calls = filter (\<lambda>e. ce_event_type e = EVENT_BINDER_CALL)
           (snd (run_probe id_step (id_start camserver) xs))"
  shows "(\<forall>e \<in> set (snd (id_step (env, Id_State ctx) (fst (run_probe id_step (id_start camserver) xs)))).
       cs_state ctx \<noteq> 0 \<and> ce_pid e = (if calls = [] then 0 else ce_pid (last calls)) \<and>
       ce_extra_2 e = ucast (ce_pid e)) \<and>
    sorted_wrt (\<lambda>x y. cur_pid (fst x) = cur_pid (fst y) \<longrightarrow>
        unat (ktime_ns (fst x) 0) + 500000000 \<le> unat (ktime_ns (fst y) 0))
      (emitting id_calls (id_start camserver) xs)"
proof
  have "id_recent (fst (run_probe id_step (id_start camserver) xs)) 0 =
      (if calls = [] then None else Some (ce_pid (last calls)))"
    using id_recent_run [of xs "id_start camserver"] assms(1,3) by (simp add: Let_def id_start_def)
  then show "\<forall>e \<in> set (snd (id_step (env, Id_State ctx) (fst (run_probe id_step (id_start camserver) xs)))).
       cs_state ctx \<noteq> 0 \<and> ce_pid e = (if calls = [] then 0 else ce_pid (last calls)) \<and>
       ce_extra_2 e = ucast (ce_pid e)"
    by (auto simp: id_step_def id_context_state_def Let_def split: option.splits)
next
  have "\<forall>x \<in> set xs. map_ok (fst x) 0" using assms(1) by blast
  then show "sorted_wrt (\<lambda>x y. cur_pid (fst x) = cur_pid (fst y) \<longrightarrow>
        unat (ktime_ns (fst x) 0) + 500000000 \<le> unat (ktime_ns (fst y) 0))
      (emitting id_calls (id_start camserver) xs)"
    using identity.emitting_spaced [OF assms(2), of "id_start camserver"] by simp
qed

definition id_sample :: id_input where
  "id_sample = (suite_env event_blank ''com.app'' 5, Id_Binder \<lparr>bt_to_proc = 5, bt_reply = 0, bt_code = 3\<rparr>)"

lemma id_session_of_last_call_witness:
  "map ce_pid (snd (id_step (suite_env event_blank ''provider'' 9, Id_State \<lparr>cs_ctx = 1, cs_state = 1\<rparr>)
      (fst (run_probe id_step (id_start 5) [id_sample])))) = [7]"
proof -
  let ?es = "snd (id_step (suite_env event_blank ''provider'' 9, Id_State \<lparr>cs_ctx = 1, cs_state = 1\<rparr>)
      (fst (run_probe id_step (id_start 5) [id_sample])))"
  have "map ce_pid (filter (\<lambda>e. ce_event_type e = EVENT_BINDER_CALL)
      (snd (run_probe id_step (id_start 5) [id_sample]))) = [7]"
    by (simp add: id_sample_def suite_env_def id_step_def id_binder_def id_start_def array_map1_def
        cur_pid_def cur_uid_cast Let_def run_probe.simps(1))
  then obtain e where "filter (\<lambda>e. ce_event_type e = EVENT_BINDER_CALL)
      (snd (run_probe id_step (id_start 5) [id_sample])) = [e]" "ce_pid e = 7"
    by auto
  moreover have "length ?es = 1"
    by (simp add: id_step_def id_context_state_def suite_env_def Let_def)
  moreover have "\<forall>x \<in> set [id_sample]. (\<forall>i. map_ok (fst x) i) \<and> reserve (fst x) 0 \<noteq> None"
    by (simp add: id_sample_def suite_env_def)
  ultimately show ?thesis
    using id_session_of_last_call [where xs = "[id_sample]" and camserver = 5 and
        env = "suite_env event_blank ''provider'' 9" and ctx = "\<lparr>cs_ctx = 1, cs_state = 1\<rparr>", OF _ _ refl]
    by (auto simp: length_Suc_conv)
qed

end
