(* ===== verification/Cam_Flow.thy ===== *)
theory Cam_Flow
  imports Cam_Suite
begin

text \<open>
  \<open>cam_ident/cam_flow\<close>, which correlates the pipeline: sessions per camera context and the latency
  of requests from submission to completion.
\<close>

section \<open>Kernel programs\<close>

record session_info =
  si_start_time :: u64
  si_last_req_id :: u64
  si_frame_count :: u32
  si_drop_count :: u32
  si_last_submit_ts :: u64
  si_last_done_ts :: u64

record cf_maps =
  session_map :: "u32 \<rightharpoonup> session_info"
  req_submit_ts :: "u64 \<rightharpoonup> u64"

definition cf_context_state ::
  "cam_event probe_env \<Rightarrow> context_args \<Rightarrow> cf_maps \<Rightarrow> cf_maps \<times> cam_event list" where
  "cf_context_state env ctx m =
     (let key = ucast (cs_ctx ctx) AND 0xFFFF;
          now = ktime_ns env 0;
          si = \<lparr>si_start_time = now, si_last_req_id = 0, si_frame_count = 0, si_drop_count = 0,
                si_last_submit_ts = 0, si_last_done_ts = 0\<rparr>;
          m = (if cs_state ctx \<noteq> 0
               then m\<lparr>session_map := bpf_map_update (map_ok env 0) key si (session_map m)\<rparr>
               else m\<lparr>session_map := bpf_map_delete key (session_map m)\<rparr>)
      in (m, send_event env 0 (if cs_state ctx = 0 then EVENT_CAMERA_CLOSE else EVENT_CAMERA_OPEN)
               key 0 (ucast (cs_state ctx)) 0))"

definition cf_apply :: "cam_event probe_env \<Rightarrow> u64 \<Rightarrow> cf_maps \<Rightarrow> cf_maps" where
  "cf_apply env req_id m =
     m\<lparr>req_submit_ts := bpf_map_update (map_ok env 0) req_id (ktime_ns env 0) (req_submit_ts m)\<rparr>"

definition cf_buf_done :: "cam_event probe_env \<Rightarrow> u64 \<Rightarrow> cf_maps \<Rightarrow> cf_maps \<times> cam_event list" where
  "cf_buf_done env req m =
     (let now = ktime_ns env 0;
          (latency, m) = (case req_submit_ts m req of
             None \<Rightarrow> (0, m)
           | Some t \<Rightarrow> (now - t, m\<lparr>req_submit_ts := bpf_map_delete req (req_submit_ts m)\<rparr>))
      in (m, send_event env 0 EVENT_BUFFER_FILLED 0 0 req latency))"

definition cf_frame_skip :: "cam_event probe_env \<Rightarrow> cam_event list" where
  "cf_frame_skip env = send_event env 0 EVENT_FLUSH 0 0 0 0"

datatype cf_point = Context_State context_args | Apply u64 | Buf_Done u64 | Frame_Skip

type_synonym cf_input = "cam_event probe_env \<times> cf_point"

definition cf_step :: "cf_input \<Rightarrow> cf_maps \<Rightarrow> cf_maps \<times> cam_event list" where
  "cf_step x m =
     (case snd x of
        Context_State ctx \<Rightarrow> cf_context_state (fst x) ctx m
      | Apply req_id \<Rightarrow> (cf_apply (fst x) req_id m, [])
      | Buf_Done req \<Rightarrow> cf_buf_done (fst x) req m
      | Frame_Skip \<Rightarrow> (m, cf_frame_skip (fst x)))"

definition cf_start :: cf_maps where
  "cf_start = \<lparr>session_map = Map.empty, req_submit_ts = Map.empty\<rparr>"

section \<open>The report\<close>

text \<open>\<open>ms_text\<close> is what \<open>printf\<close> makes of \<open>"%.2f"\<close> for a number of nanoseconds divided by a
  million in double precision.\<close>

definition cf_handle_event :: "(u64 \<Rightarrow> string) \<Rightarrow> cam_event \<Rightarrow> string" where
  "cf_handle_event ms_text e =
     (let ts = stamp (ce_timestamp e);
          who = ''PID='' @ padr 6 (dec32 (ce_pid e)) @ '' COMM='' @ cstr (ce_comm e) @ [newline]
      in if ce_event_type e = EVENT_CAMERA_OPEN
         then ts @ '' SESSION_START  CAM=0x'' @ uhex (unat (ce_camera_id e)) @ ''  '' @ who
         else if ce_event_type e = EVENT_CAMERA_CLOSE
         then ts @ '' SESSION_END    CAM=0x'' @ uhex (unat (ce_camera_id e)) @ ''  '' @ who
         else if ce_event_type e = EVENT_REQ_SUBMITTED
         then ts @ '' SUBMIT        REQ='' @ padr 8 (dec32 (ce_extra_1 e)) @ '' '' @ who
         else if ce_event_type e = EVENT_BUFFER_FILLED
         then ts @ '' BUF_DONE      REQ='' @ padr 8 (dec32 (ce_extra_1 e)) @ '' LATENCY='' @
              ms_text (ce_extra_2 e) @ '' ms'' @ [newline]
         else if ce_event_type e = EVENT_FLUSH
         then ts @ '' FRAME_SKIP    '' @ who
         else ts @ '' UNKNOWN       type='' @ dec32 (ce_event_type e) @ [newline])"

section \<open>Latency\<close>

text \<open>The submission a completion belongs to: the last one of the request, unless the request was
  completed since.\<close>

fun submitted_at :: "u64 \<Rightarrow> u64 option \<Rightarrow> cf_input list \<Rightarrow> u64 option" where
  "submitted_at req t [] = t"
| "submitted_at req t ((env, p) # xs) =
     submitted_at req (if p = Apply req then Some (ktime_ns env 0)
                       else if p = Buf_Done req then None else t) xs"

lemma cf_step_submit:
  assumes "\<forall>i. map_ok (fst x) i"
  shows "req_submit_ts (fst (cf_step x m)) req =
    (if snd x = Apply req then Some (ktime_ns (fst x) 0)
     else if snd x = Buf_Done req then None else req_submit_ts m req)"
  using assms
  by (auto simp: cf_step_def cf_context_state_def cf_apply_def cf_buf_done_def bpf_map_delete_def Let_def
      split: cf_point.split option.split)

lemma cf_run_submit:
  "\<forall>x \<in> set xs. \<forall>i. map_ok (fst x) i \<Longrightarrow>
   req_submit_ts (fst (run_probe cf_step m xs)) req = submitted_at req (req_submit_ts m req) xs"
proof (induction xs arbitrary: m)
  case Nil
  then show ?case by (simp add: run_probe.simps(1))
next
  case (Cons x xs)
  then show ?case using cf_step_submit [of x m req] by (cases x) auto
qed

text \<open>The history in which a request was last submitted at time \<open>t\<close>.\<close>

lemma submitted_at_append: "submitted_at req t (xs @ ys) = submitted_at req (submitted_at req t xs) ys"
  by (induction req t xs rule: submitted_at.induct) auto

lemma submitted_at_idle:
  "\<forall>x \<in> set xs. snd x \<noteq> Apply req \<and> snd x \<noteq> Buf_Done req \<Longrightarrow> submitted_at req t xs = t"
  by (induction req t xs rule: submitted_at.induct) auto

text \<open>C13: the latency of a request is measured exactly: however submissions and completions
  of other requests, changes of context and skipped frames come in between, the completion of a
  request reports the time since its last submission; a second completion without a new submission
  reports 0. Every update of a map is taken to succeed: the maps of 64 sessions and 256 requests are
  never full.\<close>

theorem cf_latency_exact:
  assumes "\<forall>x \<in> set (pre @ (senv, Apply req) # mid). \<forall>i. map_ok (fst x) i"
    and "\<forall>x \<in> set (mid @ more_steps). snd x \<noteq> Apply req \<and> snd x \<noteq> Buf_Done req"
    and "\<forall>x \<in> set more_steps. \<forall>i. map_ok (fst x) i" and "\<forall>i. map_ok denv i"
    and "reserve denv 0 = Some d0" and "reserve denv' 0 = Some d1"
  shows "map (\<lambda>e. (ce_extra_1 e, ce_extra_2 e)) (snd (cf_step (denv, Buf_Done req)
      (fst (run_probe cf_step cf_start (pre @ (senv, Apply req) # mid))))) =
      [(req, ktime_ns denv 0 - ktime_ns senv 0)] \<and>
    map (\<lambda>e. (ce_extra_1 e, ce_extra_2 e)) (snd (cf_step (denv', Buf_Done req)
      (fst (run_probe cf_step cf_start (pre @ (senv, Apply req) # mid @ (denv, Buf_Done req) # more_steps))))) =
      [(req, 0)]"
proof -
  have report: "map (\<lambda>e. (ce_extra_1 e, ce_extra_2 e)) (snd (cf_step (env, Buf_Done req) m)) =
      [(req, case req_submit_ts m req of None \<Rightarrow> 0 | Some t \<Rightarrow> ktime_ns env 0 - t)]"
    if "reserve env 0 = Some e0" for env m e0
    using that by (simp add: cf_step_def cf_buf_done_def send_event_def fill_base_def Let_def
        split: option.split)
  have a: "req_submit_ts (fst (run_probe cf_step cf_start (pre @ (senv, Apply req) # mid))) req =
      Some (ktime_ns senv 0)"
    using assms(1,2) by (simp add: cf_run_submit submitted_at_append submitted_at_idle)
  have b: "req_submit_ts (fst (run_probe cf_step cf_start
      (pre @ (senv, Apply req) # mid @ (denv, Buf_Done req) # more_steps))) req = None"
  proof -
    have "\<forall>x \<in> set (pre @ (senv, Apply req) # mid @ (denv, Buf_Done req) # more_steps). \<forall>i. map_ok (fst x) i"
      using assms(1,3,4) by auto
    from cf_run_submit [OF this] show ?thesis
      using assms(2) by (simp add: submitted_at_append submitted_at_idle)
  qed
  show ?thesis using report [OF assms(5)] report [OF assms(6)] a b by simp
qed

abbreviation cf_env :: "u64 \<Rightarrow> cam_event probe_env" where
  "cf_env t \<equiv> suite_env event_blank ''provider'' t"

lemma cf_latency_exact_witness:
  "map (\<lambda>e. (ce_extra_1 e, ce_extra_2 e)) (snd (cf_step (cf_env 90, Buf_Done 4)
     (fst (run_probe cf_step cf_start [(cf_env 10, Apply 3), (cf_env 20, Apply 4), (cf_env 50, Buf_Done 3)])))) =
     [(4, 70)]"
  using cf_latency_exact [of "[(cf_env 10, Apply 3)]" "cf_env 20" 4 "[(cf_env 50, Buf_Done 3)]" "[]"
      "cf_env 90" event_blank "cf_env 95" event_blank]
  by (simp add: suite_env_def)

end
