(* ===== verification/Loader.thy ===== *)
theory Loader
  imports Filewatch Cam_V2_Report Cam_Identity Pktrace "HOL-Library.Multiset"
begin

text \<open>
  The \<open>main\<close> functions: opening, loading and attaching the kernel programs, the polling loop, and
  the cleanup behind every exit. What libbpf and the system answer is a record; a run is the value
  returned by \<open>main\<close> with the sequence of its actions, and \<open>None\<close> is a run that never ends.
\<close>

section \<open>Environment and actions\<close>

datatype direction = Ingress | Egress

datatype resource =
    Skel
  | Ring
  | Log_File
  | Pcap_File
  | Clsact
  | Tc_Filter direction
  | Screen

text \<open>\<open>Clsact\<close> is the queueing discipline that carries the filters of both directions of an
  interface. \<open>Got\<close> and \<open>Freed\<close> are acquisitions that succeeded and releases, \<open>Flushed d\<close> the removal of
  all filters of a direction; \<open>Map_Set v\<close> is an update of the entry 0 of the configuration map,
  \<open>Attached\<close> the start of the probes, \<open>Polled\<close> a result of \<open>ring_buffer__poll\<close>.\<close>

datatype action =
    Got resource
  | Freed resource
  | Flushed direction
  | Map_Set u32
  | Attached
  | Polled int

definition EINTR :: int where "EINTR = 4"
definition EEXIST :: int where "EEXIST = 17"

text \<open>The answers of libbpf: whether a skeleton is opened (or opened and loaded), the results of
  loading, of the map update and of attaching, whether the ring buffer is created, and the results of
  the polls. \<open>stopped k\<close> tells whether a signal has set the flag at the \<open>k\<close>-th test of the loop.\<close>

record libbpf =
  skel_open :: bool
  skel_load :: int
  map_update :: int
  skel_attach :: int
  ring_new :: bool
  poll :: "nat \<Rightarrow> int"
  stopped :: "nat \<Rightarrow> bool"

type_synonym run = "(int \<times> action list) option"

section \<open>The polling loop\<close>

text \<open>All loops poll until the flag is set; they differ in which results leave the loop and in the
  value of \<open>err\<close> they leave it with.\<close>

partial_function (option) poll_loop ::
  "(int \<Rightarrow> bool) \<Rightarrow> (int \<Rightarrow> int) \<Rightarrow> 'a libbpf_scheme \<Rightarrow> nat \<Rightarrow> int \<Rightarrow> action list \<Rightarrow> run" where
  "poll_loop leave final w k err tr =
     (if stopped w k then Some (err, tr)
      else if leave (poll w k) then Some (final (poll w k), tr @ [Polled (poll w k)])
      else poll_loop leave final w (Suc k) (poll w k) (tr @ [Polled (poll w k)]))"

text \<open>The loop that ends on an interrupt with success.\<close>

definition poll_until_error :: "'a libbpf_scheme \<Rightarrow> int \<Rightarrow> action list \<Rightarrow> run" where
  "poll_until_error w err tr =
     poll_loop (\<lambda>e. e < 0) (\<lambda>e. if e = - EINTR then 0 else e) w 0 err tr"

text \<open>The loop of \<open>filewatch\<close>, which keeps the value of an interrupt.\<close>

definition poll_until_negative :: "'a libbpf_scheme \<Rightarrow> int \<Rightarrow> action list \<Rightarrow> run" where
  "poll_until_negative w err tr = poll_loop (\<lambda>e. e < 0) (\<lambda>e. e) w 0 err tr"

text \<open>The loop that goes on after an interrupt.\<close>

definition poll_through_interrupts :: "'a libbpf_scheme \<Rightarrow> int \<Rightarrow> action list \<Rightarrow> run" where
  "poll_through_interrupts w err tr =
     poll_loop (\<lambda>e. e < 0 \<and> e \<noteq> - EINTR) (\<lambda>e. e) w 0 err tr"

section \<open>execguard, privwatch, procwatch\<close>

text \<open>The label \<open>cleanup\<close>: \<open>rb\<close> tells whether the ring buffer exists.\<close>

definition cleanup_skel :: "bool \<Rightarrow> action list \<Rightarrow> action list" where
  "cleanup_skel rb tr = tr @ (if rb then [Freed Ring] else []) @ [Freed Skel]"

definition exit_on_error :: "bool \<Rightarrow> int \<times> action list \<Rightarrow> int \<times> action list" where
  "exit_on_error rb = (\<lambda>(err, tr). (if err < 0 then 1 else 0, cleanup_skel rb tr))"

definition execguard_main :: "libbpf \<Rightarrow> run" where
  "execguard_main w =
     (if \<not> skel_open w then Some (1, [])
      else if skel_load w \<noteq> 0 then Some (exit_on_error False (skel_load w, [Got Skel]))
      else if skel_attach w \<noteq> 0 then Some (exit_on_error False (skel_attach w, [Got Skel]))
      else if \<not> ring_new w then Some (exit_on_error False (-1, [Got Skel, Attached]))
      else map_option (exit_on_error True)
             (poll_until_error w (skel_attach w) [Got Skel, Attached, Got Ring]))"

definition privwatch_main :: "libbpf \<Rightarrow> run" where
  "privwatch_main w =
     (if \<not> skel_open w then Some (1, [])
      else if skel_load w \<noteq> 0 then Some (exit_on_error False (skel_load w, [Got Skel]))
      else if skel_attach w \<noteq> 0 then Some (exit_on_error False (skel_attach w, [Got Skel]))
      else if \<not> ring_new w then Some (exit_on_error False (skel_attach w, [Got Skel, Attached]))
      else map_option (exit_on_error True)
             (poll_until_error w (skel_attach w) [Got Skel, Attached, Got Ring]))"

definition procwatch_main :: "libbpf \<Rightarrow> run" where
  "procwatch_main w =
     (if \<not> skel_open w then Some (1, [])
      else if skel_attach w \<noteq> 0 then Some (exit_on_error False (skel_attach w, [Got Skel]))
      else if \<not> ring_new w then Some (exit_on_error False (skel_attach w, [Got Skel, Attached]))
      else map_option (exit_on_error True)
             (poll_until_error w (skel_attach w) [Got Skel, Attached, Got Ring]))"

section \<open>filewatch\<close>

definition exit_success :: "bool \<Rightarrow> int \<times> action list \<Rightarrow> int \<times> action list" where
  "exit_success rb = (\<lambda>(err, tr). (0, cleanup_skel rb tr))"

definition filewatch_main :: "u32 \<Rightarrow> libbpf \<Rightarrow> run" where
  "filewatch_main getpid w =
     (if \<not> skel_open w then Some (1, [])
      else if skel_load w \<noteq> 0 then Some (exit_success False (skel_load w, [Got Skel]))
      else if map_update w \<noteq> 0 then Some (exit_success False (map_update w, [Got Skel]))
      else if skel_attach w \<noteq> 0 then Some (exit_success False (skel_attach w, [Got Skel, Map_Set getpid]))
      else if \<not> ring_new w
      then Some (exit_success False (skel_attach w, [Got Skel, Map_Set getpid, Attached]))
      else map_option (exit_success True)
             (poll_until_negative w (skel_attach w) [Got Skel, Map_Set getpid, Attached, Got Ring]))"

text \<open>The broad variant has the same text.\<close>

definition filewatch_broad_main :: "u32 \<Rightarrow> libbpf \<Rightarrow> run" where
  "filewatch_broad_main getpid w = filewatch_main getpid w"

section \<open>The camera tools\<close>

definition cam_main :: "libbpf \<Rightarrow> run" where
  "cam_main w =
     (if \<not> skel_open w then Some (1, [])
      else if skel_attach w \<noteq> 0 then Some (exit_success False (0, [Got Skel]))
      else if \<not> ring_new w then Some (exit_success False (0, [Got Skel, Attached]))
      else map_option (exit_success True)
             (poll_through_interrupts w 0 [Got Skel, Attached, Got Ring]))"

text \<open>Four more tools have the same text.\<close>

definition cam_control_main :: "libbpf \<Rightarrow> run" where "cam_control_main w = cam_main w"
definition cam_buffer_main :: "libbpf \<Rightarrow> run" where "cam_buffer_main w = cam_main w"
definition cam_flow_main :: "libbpf \<Rightarrow> run" where "cam_flow_main w = cam_main w"
definition cam_data_main :: "libbpf \<Rightarrow> run" where "cam_data_main w = cam_main w"

text \<open>The identity tools look for the camera server first and store its process number.\<close>

definition cam_identity_main ::
  "(string \<rightharpoonup> char list) \<Rightarrow> (string \<times> bool) list option \<Rightarrow> libbpf \<Rightarrow> run" where
  "cam_identity_main files dir w =
     (let camserver_pid = find_pid_by_cmdline files dir ''cameraserver''
      in if camserver_pid < 0 then Some (1, [])
         else if \<not> skel_open w then Some (1, [])
         else if map_update w \<noteq> 0 then Some (exit_success False (0, [Got Skel]))
         else (let tr = [Got Skel, Map_Set (word_of_int camserver_pid)]
               in if skel_attach w \<noteq> 0 then Some (exit_success False (0, tr))
                  else if \<not> ring_new w then Some (exit_success False (0, tr @ [Attached]))
                  else map_option (exit_success True)
                         (poll_through_interrupts w 0 (tr @ [Attached, Got Ring]))))"

text \<open>The tool of \<open>cam_v2\<close> has the same text.\<close>

definition cam_v2_main ::
  "(string \<rightharpoonup> char list) \<Rightarrow> (string \<times> bool) list option \<Rightarrow> libbpf \<Rightarrow> run" where
  "cam_v2_main files dir w = cam_identity_main files dir w"

section \<open>pktrace\<close>

text \<open>The answers of the system for the packet tools: the index of an interface, whether a file can
  be created, and the results of \<open>bpf_tc_hook_create\<close>, \<open>bpf_tc_attach\<close>, \<open>bpf_tc_detach\<close> and
  \<open>bpf_tc_hook_destroy\<close> for the hook of a direction.\<close>

record tc_world = libbpf +
  if_nametoindex :: "string \<Rightarrow> nat"
  fopen_ok :: "string \<Rightarrow> bool"
  hook_create :: "direction \<Rightarrow> int"
  tc_attach :: "direction \<Rightarrow> int"
  tc_detach :: "direction \<Rightarrow> int"
  hook_destroy :: "direction \<Rightarrow> int"

text \<open>The options that \<open>getopt_long\<close> yields, with their arguments; \<open>None\<close> is the call of
  \<open>usage\<close>.\<close>

record pt_options =
  log_path :: "string option"
  pcap_path :: "string option"
  preview :: nat

text \<open>\<open>strtoul(s, NULL, 10)\<close> with a 64-bit \<open>unsigned long\<close>: a minus sign negates modulo
  \<open>2 ^ 64\<close>, larger numbers saturate.\<close>

definition strtoul10 :: "string \<Rightarrow> nat" where
  "strtoul10 s =
     (case dropWhile is_space s of
        [] \<Rightarrow> 0
      | c # t \<Rightarrow>
          let v = dec_value 0 (if c = CHR ''-'' \<or> c = CHR ''+'' then t else c # t)
          in if 2 ^ 64 - 1 < v then 2 ^ 64 - 1
             else if c = CHR ''-'' then (2 ^ 64 - v) mod 2 ^ 64 else v)"

fun pt_getopt :: "(char \<times> string) list \<Rightarrow> pt_options \<Rightarrow> pt_options option" where
  "pt_getopt [] opts = Some opts"
| "pt_getopt ((c, optarg) # others) opts =
     (if c = CHR ''l'' then pt_getopt others (opts\<lparr>log_path := Some optarg\<rparr>)
      else if c = CHR ''p'' then pt_getopt others (opts\<lparr>pcap_path := Some optarg\<rparr>)
      else if c = CHR ''n'' then pt_getopt others (opts\<lparr>preview := preview_of (strtoul10 optarg)\<rparr>)
      else None)"

text \<open>The files, in the order in which they are created: their actions, or the value \<open>main\<close>
  returns with the actions before.\<close>

definition pt_open_files :: "tc_world \<Rightarrow> pt_options \<Rightarrow> (int \<times> action list) + action list" where
  "pt_open_files w opts =
     (let log = (case log_path opts of Some p \<Rightarrow> if fopen_ok w p then Some [Got Log_File] else None
                 | None \<Rightarrow> Some [])
      in case log of
           None \<Rightarrow> Inl (1, [])
         | Some tr \<Rightarrow>
             (case pcap_path opts of
                None \<Rightarrow> Inr tr
              | Some p \<Rightarrow>
                  if fopen_ok w p then Inr (tr @ [Got Pcap_File])
                  else Inl (1, tr @ (if log_path opts \<noteq> None then [Freed Log_File] else []))))"

text \<open>The two calls that undo an attachment, whose results the tools ignore. As libbpf documents them,
  the first removes the filter if it succeeds; the second, for a hook whose attach point is one
  direction, removes the filters of this direction if it succeeds and never the queueing
  discipline, which only a hook with both directions stands for.\<close>

definition tc_release :: "tc_world \<Rightarrow> direction \<Rightarrow> action list" where
  "tc_release w d =
     (if tc_detach w d = 0 then [Freed (Tc_Filter d)] else []) @
     (if hook_destroy w d = 0 then [Flushed d] else [])"

text \<open>The label \<open>cleanup\<close>; the flags tell which of the pointers are set.\<close>

definition pt_release :: "tc_world \<Rightarrow> pt_options \<Rightarrow> bool \<Rightarrow> bool \<Rightarrow> bool \<Rightarrow> action list" where
  "pt_release w opts skel attached rb =
     (if rb then [Freed Ring] else []) @
     (if attached then tc_release w Ingress else []) @
     (if pcap_path opts \<noteq> None then [Freed Pcap_File] else []) @
     (if log_path opts \<noteq> None then [Freed Log_File] else []) @
     (if skel then [Freed Skel] else [])"

definition pt_cleanup ::
  "tc_world \<Rightarrow> pt_options \<Rightarrow> bool \<Rightarrow> bool \<Rightarrow> bool \<Rightarrow> int \<times> action list \<Rightarrow> int \<times> action list" where
  "pt_cleanup w opts skel attached rb =
     (\<lambda>(err, tr). (if err < 0 then - err else 0, tr @ pt_release w opts skel attached rb))"

text \<open>Creating the hook of a direction creates the queueing discipline; where it exists already it is
  used as it is.\<close>

definition hook_actions :: "tc_world \<Rightarrow> direction \<Rightarrow> action list" where
  "hook_actions w d = (if hook_create w d = 0 then [Got Clsact] else [])"

definition hook_fails :: "tc_world \<Rightarrow> direction \<Rightarrow> bool" where
  "hook_fails w d \<longleftrightarrow> hook_create w d \<noteq> 0 \<and> hook_create w d \<noteq> - EEXIST"

definition pktrace_run :: "tc_world \<Rightarrow> pt_options \<Rightarrow> action list \<Rightarrow> run" where
  "pktrace_run w opts tr =
     (if \<not> skel_open w then Some (pt_cleanup w opts False False False (0, tr))
      else if hook_fails w Ingress
      then Some (pt_cleanup w opts True False False (hook_create w Ingress, tr @ [Got Skel]))
      else (let tr = tr @ [Got Skel] @ hook_actions w Ingress
            in if tc_attach w Ingress \<noteq> 0
               then Some (pt_cleanup w opts True False False (tc_attach w Ingress, tr))
               else (let tr = tr @ [Got (Tc_Filter Ingress)]
                     in if \<not> ring_new w then Some (pt_cleanup w opts True True False (0, tr))
                        else map_option (pt_cleanup w opts True True True)
                               (poll_through_interrupts w 0 (tr @ [Got Ring])))))"

definition pktrace_main :: "(char \<times> string) list \<Rightarrow> string list \<Rightarrow> tc_world \<Rightarrow> run" where
  "pktrace_main options args w =
     (case pt_getopt options \<lparr>log_path = None, pcap_path = None, preview = 64\<rparr> of
        None \<Rightarrow> Some (1, [])
      | Some opts \<Rightarrow>
          (case args of
             [] \<Rightarrow> Some (1, [])
           | ifname # _ \<Rightarrow>
               if if_nametoindex w ifname = 0 then Some (1, [])
               else (case pt_open_files w opts of
                       Inl r \<Rightarrow> Some r
                     | Inr tr \<Rightarrow> pktrace_run w opts tr)))"

section \<open>pksniff\<close>

record pk_options =
  btf_path :: "string option"
  out_path :: "string option"
  verbose :: bool

fun pk_getopt :: "(char \<times> string) list \<Rightarrow> pk_options \<Rightarrow> pk_options option" where
  "pk_getopt [] opts = Some opts"
| "pk_getopt ((c, optarg) # others) opts =
     (if c = CHR ''b'' then pk_getopt others (opts\<lparr>btf_path := Some optarg\<rparr>)
      else if c = CHR ''o'' then pk_getopt others (opts\<lparr>out_path := Some optarg\<rparr>)
      else if c = CHR ''v'' then pk_getopt others (opts\<lparr>verbose := True\<rparr>)
      else None)"

definition pk_release :: "tc_world \<Rightarrow> pk_options \<Rightarrow> bool \<Rightarrow> bool \<Rightarrow> bool \<Rightarrow> action list" where
  "pk_release w opts rb attached_eg attached_in =
     (if rb then [Freed Ring] else []) @
     (if attached_eg then tc_release w Egress else []) @
     (if attached_in then tc_release w Ingress else []) @
     (if out_path opts \<noteq> None then [Freed Pcap_File] else []) @ [Freed Skel]"

definition pk_cleanup ::
  "tc_world \<Rightarrow> pk_options \<Rightarrow> bool \<Rightarrow> bool \<Rightarrow> bool \<Rightarrow> int \<times> action list \<Rightarrow> int \<times> action list" where
  "pk_cleanup w opts rb attached_eg attached_in =
     (\<lambda>(err, tr). (if err < 0 then - err else 0, tr @ pk_release w opts rb attached_eg attached_in))"

text \<open>From the hooks on. The screen is set up before the loop, whose polls do not wait, and torn down
  behind it.\<close>

definition pksniff_run :: "tc_world \<Rightarrow> pk_options \<Rightarrow> action list \<Rightarrow> run" where
  "pksniff_run w opts tr =
     (if hook_fails w Ingress
      then Some (pk_cleanup w opts False False False (hook_create w Ingress, tr))
      else (let tr = tr @ hook_actions w Ingress
            in if tc_attach w Ingress \<noteq> 0
               then Some (pk_cleanup w opts False False False (tc_attach w Ingress, tr))
      else (let tr = tr @ [Got (Tc_Filter Ingress)]
            in if hook_fails w Egress
               then Some (pk_cleanup w opts False False True (hook_create w Egress, tr))
      else (let tr = tr @ hook_actions w Egress
            in if tc_attach w Egress \<noteq> 0
               then Some (pk_cleanup w opts False False True (tc_attach w Egress, tr))
      else (let tr = tr @ [Got (Tc_Filter Egress)]
            in if \<not> ring_new w then Some (pk_cleanup w opts False True True (0, tr))
               else map_option (\<lambda>(err, tr). pk_cleanup w opts True True True (err, tr @ [Freed Screen]))
                      (poll_through_interrupts w 0 (tr @ [Got Ring, Got Screen])))))))"

text \<open>The capture file: \<open>None\<close> when it cannot be created.\<close>

definition pk_open_file :: "tc_world \<Rightarrow> pk_options \<Rightarrow> action list option" where
  "pk_open_file w opts =
     (case out_path opts of
        None \<Rightarrow> Some []
      | Some p \<Rightarrow> if fopen_ok w p then Some [Got Pcap_File] else None)"

definition pksniff_main :: "(char \<times> string) list \<Rightarrow> string list \<Rightarrow> tc_world \<Rightarrow> run" where
  "pksniff_main options args w =
     (case pk_getopt options \<lparr>btf_path = None, out_path = None, verbose = False\<rparr> of
        None \<Rightarrow> Some (1, [])
      | Some opts \<Rightarrow>
          (case args of
             [] \<Rightarrow> Some (1, [])
           | ifname # _ \<Rightarrow>
               if if_nametoindex w ifname = 0 then Some (1, [])
               else (case pk_open_file w opts of
                       None \<Rightarrow> Some (1, [])
                     | Some tr \<Rightarrow>
                         if \<not> skel_open w then Some (1, tr)
                         else if skel_load w \<noteq> 0 then Some (1, tr @ [Got Skel, Freed Skel])
                         else pksniff_run w opts (tr @ [Got Skel]))))"

section \<open>Every run ends\<close>

lemma poll_loop_returns: "stopped w (k + n) \<Longrightarrow> poll_loop leave final w k e tr \<noteq> None"
proof (induction n arbitrary: k e tr)
  case 0
  then show ?case by (subst poll_loop.simps) simp
next
  case (Suc n)
  then have "poll_loop leave final w (Suc k) (poll w k) (tr @ [Polled (poll w k)]) \<noteq> None" by simp
  then show ?case by (subst poll_loop.simps) simp
qed

text \<open>What a loop that ends has done: it polled, no result but the last left the loop, and the value
  is determined by the last result.\<close>

definition loop_value :: "(int \<Rightarrow> bool) \<Rightarrow> (int \<Rightarrow> int) \<Rightarrow> int \<Rightarrow> int list \<Rightarrow> int" where
  "loop_value leave final err ps =
     (if ps = [] then err else if leave (last ps) then final (last ps) else last ps)"

lemma poll_loop_run:
  assumes "poll_loop leave final (w :: 'a libbpf_scheme) k err tr = Some y"
  shows "\<exists>ps. y = (loop_value leave final err ps, tr @ map Polled ps) \<and>
    (\<forall>p \<in> set (butlast ps). \<not> leave p)"
proof (rule poll_loop.raw_induct [OF _ assms])
  fix self leave final and w :: "'a libbpf_scheme" and k err tr y
  assume IH: "\<And>leave final w k err tr y. self leave final w k err tr = Some y \<Longrightarrow>
      \<exists>ps. y = (loop_value leave final err ps, tr @ map Polled ps) \<and> (\<forall>p \<in> set (butlast ps). \<not> leave p)"
    and body: "(if stopped w k then Some (err, tr)
      else if leave (poll w k) then Some (final (poll w k), tr @ [Polled (poll w k)])
      else self leave final w (Suc k) (poll w k) (tr @ [Polled (poll w k)])) = Some y"
  show "\<exists>ps. y = (loop_value leave final err ps, tr @ map Polled ps) \<and> (\<forall>p \<in> set (butlast ps). \<not> leave p)"
  proof (cases "stopped w k")
    case True
    then show ?thesis using body by (intro exI [of _ "[]"]) (simp add: loop_value_def)
  next
    case go: False
    show ?thesis
    proof (cases "leave (poll w k)")
      case True
      then show ?thesis using body go by (intro exI [of _ "[poll w k]"]) (simp add: loop_value_def)
    next
      case False
      then have "self leave final w (Suc k) (poll w k) (tr @ [Polled (poll w k)]) = Some y"
        using body go by simp
      from IH [OF this] obtain ps where
        "y = (loop_value leave final (poll w k) ps, (tr @ [Polled (poll w k)]) @ map Polled ps)"
        "\<forall>p \<in> set (butlast ps). \<not> leave p"
        by blast
      then show ?thesis using False by (intro exI [of _ "poll w k # ps"]) (simp add: loop_value_def)
    qed
  qed
qed

text \<open>The three loops.\<close>

lemma loop_value_leaves:
  assumes "\<forall>p \<in> set (butlast ps). \<not> leave p" and "ps \<noteq> []"
  shows "(\<exists>p \<in> set ps. leave p \<and> q p) \<longleftrightarrow> leave (last ps) \<and> q (last ps)"
  using assms by (cases ps rule: rev_cases) auto

lemma poll_until_error_run:
  assumes "poll_until_error w err tr = Some y"
  shows "\<exists>ps. snd y = tr @ map Polled ps \<and>
     (0 \<le> err \<longrightarrow> (fst y < 0 \<longleftrightarrow> (\<exists>p \<in> set ps. p < 0 \<and> p \<noteq> - EINTR)))"
proof -
  obtain ps where ps: "y = (loop_value (\<lambda>e. e < 0) (\<lambda>e. if e = - EINTR then 0 else e) err ps, tr @ map Polled ps)"
    "\<forall>p \<in> set (butlast ps). \<not> p < 0"
    using poll_loop_run [OF assms [unfolded poll_until_error_def]] by blast
  then show ?thesis
    using loop_value_leaves [OF ps(2), of "\<lambda>p. p \<noteq> - EINTR"]
    by (cases "ps = []") (auto simp: loop_value_def)
qed

lemma poll_until_negative_run:
  assumes "poll_until_negative w err tr = Some y"
  shows "\<exists>ps. snd y = tr @ map Polled ps"
  using poll_loop_run [OF assms [unfolded poll_until_negative_def]] by auto

lemma poll_through_interrupts_run:
  assumes "poll_through_interrupts w err tr = Some y"
  shows "\<exists>ps. snd y = tr @ map Polled ps \<and> fst y = (if ps = [] then err else last ps)"
  using poll_loop_run [OF assms [unfolded poll_through_interrupts_def]] by (auto simp: loop_value_def)

lemma polls_return:
  assumes "stopped w k"
  shows "poll_until_error w err tr \<noteq> None" "poll_until_negative w err tr \<noteq> None"
    "poll_through_interrupts w err tr \<noteq> None"
  using poll_loop_returns [of w 0 k] assms
  by (simp_all add: poll_until_error_def poll_until_negative_def poll_through_interrupts_def)

text \<open>The tools without a network interface.\<close>

definition bpf_tools ::
  "u32 \<Rightarrow> (string \<rightharpoonup> char list) \<Rightarrow> (string \<times> bool) list option \<Rightarrow> (libbpf \<Rightarrow> run) list" where
  "bpf_tools getpid files dir =
     [execguard_main, privwatch_main, procwatch_main, filewatch_main getpid, filewatch_broad_main getpid,
      cam_main, cam_control_main, cam_buffer_main, cam_flow_main, cam_data_main,
      cam_identity_main files dir, cam_v2_main files dir]"

lemmas main_defs =
  execguard_main_def privwatch_main_def procwatch_main_def filewatch_main_def filewatch_broad_main_def
  cam_main_def cam_control_main_def cam_buffer_main_def cam_flow_main_def cam_data_main_def
  cam_identity_main_def cam_v2_main_def

text \<open>C16: every tool stops: as soon as a signal has set the flag before some test of the
  loop, \<open>main\<close> returns, whatever libbpf and the system answered before.\<close>

theorem tools_return:
  assumes "stopped w k" and "stopped v k"
  shows "list_all (\<lambda>main. main w \<noteq> None) (bpf_tools getpid files dir) \<and>
    pktrace_main options args v \<noteq> None \<and> pksniff_main options args v \<noteq> None"
proof (intro conjI)
  note loops = polls_return [OF assms(1)] polls_return [OF assms(2)]
  show "list_all (\<lambda>main. main w \<noteq> None) (bpf_tools getpid files dir)"
    using loops by (simp add: bpf_tools_def main_defs Let_def del: not_None_eq)
  show "pktrace_main options args v \<noteq> None"
    using loops
    by (simp add: pktrace_main_def pktrace_run_def Let_def del: not_None_eq
        split: option.split list.split sum.split)
  show "pksniff_main options args v \<noteq> None"
    using loops
    by (simp add: pksniff_main_def pksniff_run_def Let_def del: not_None_eq
        split: option.split list.split)
qed

section \<open>Resources\<close>

text \<open>The books of a run: what is still held, and what was released without being held.\<close>

fun ledger :: "resource multiset \<times> resource multiset \<Rightarrow> action list \<Rightarrow> resource multiset \<times> resource multiset" where
  "ledger (held, foreign) [] = (held, foreign)"
| "ledger (held, foreign) (Got r # tr) = ledger (add_mset r held, foreign) tr"
| "ledger (held, foreign) (Freed r # tr) =
     (if r \<in># held then ledger (held - {#r#}, foreign) tr else ledger (held, add_mset r foreign) tr)"
| "ledger (held, foreign) (Flushed d # tr) = ledger (filter_mset (\<lambda>r. r \<noteq> Tc_Filter d) held, foreign) tr"
| "ledger (held, foreign) (Map_Set v # tr) = ledger (held, foreign) tr"
| "ledger (held, foreign) (Attached # tr) = ledger (held, foreign) tr"
| "ledger (held, foreign) (Polled e # tr) = ledger (held, foreign) tr"

abbreviation books :: "action list \<Rightarrow> resource multiset \<times> resource multiset" where
  "books tr \<equiv> ledger ({#}, {#}) tr"

lemma ledger_polls [simp]: "ledger s (map Polled ps @ tr) = ledger s tr"
proof (induction ps arbitrary: s)
  case (Cons p ps)
  then show ?case by (cases s) simp
qed simp

lemma ledger_only_polls [simp]: "ledger s (map Polled ps) = s"
  using ledger_polls [of s ps "[]"] by (cases s) simp

lemma ledger_append: "ledger s (tr @ tr') = ledger (ledger s tr) tr'"
  by (induction s tr rule: ledger.induct) simp_all

text \<open>What the loops leave in the books, and the two exits.\<close>

lemma loops_book:
  "poll_until_error w e tr = Some y \<Longrightarrow> ledger s (snd y) = ledger s tr"
  "poll_until_negative w e tr = Some y \<Longrightarrow> ledger s (snd y) = ledger s tr"
  "poll_through_interrupts w e tr = Some y \<Longrightarrow> ledger s (snd y) = ledger s tr"
  by (auto dest!: poll_until_error_run poll_until_negative_run poll_through_interrupts_run
      simp: ledger_append)

declare exit_on_error_def [run_simps] exit_success_def [run_simps] cleanup_skel_def [run_simps]

lemma exit_books:
  "ledger s (snd (exit_on_error rb y)) = ledger (ledger s (snd y)) (cleanup_skel rb [])"
  "ledger s (snd (exit_success rb y)) = ledger (ledger s (snd y)) (cleanup_skel rb [])"
  using ledger_append [of s "snd y" "cleanup_skel rb []"]
  by (cases y; cases rb; simp add: run_simps)+

text \<open>A run keeps nothing and releases nothing it does not hold.\<close>

definition clean_run :: "run \<Rightarrow> bool" where
  "clean_run r = (case r of None \<Rightarrow> True | Some y \<Rightarrow> books (snd y) = ({#}, {#}))"

lemma clean_run_simps [simp]:
  "clean_run None"
  "clean_run (Some y) \<longleftrightarrow> books (snd y) = ({#}, {#})"
  by (simp_all add: clean_run_def)

lemma clean_loops:
  assumes "books tr = ({#Ring, Skel#}, {#})"
  shows "clean_run (map_option (exit_on_error True) (poll_until_error w e tr))"
    "clean_run (map_option (exit_success True) (poll_until_negative w e tr))"
    "clean_run (map_option (exit_success True) (poll_through_interrupts w e tr))"
  using assms loops_book [where s = "({#}, {#})" and w = w and e = e and tr = tr]
  by (auto simp: clean_run_def exit_books cleanup_skel_def split: option.split)

text \<open>C5: every tool without a network interface releases what it acquired, on every path, exactly
  once, and releases nothing that it did not acquire. What is tracked is the skeleton and the
  ring buffer; the files of \<open>/proc\<close> that the identity tools read are not.\<close>

theorem tools_release:
  "list_all (\<lambda>main. clean_run (main w)) (bpf_tools getpid files dir)"
  by (simp add: bpf_tools_def main_defs Let_def clean_loops exit_books cleanup_skel_def)

text \<open>What the packet tools leave behind of what they acquired: the queueing discipline, and a filter
  if neither call could remove it.\<close>

definition survives :: "tc_world \<Rightarrow> resource \<Rightarrow> bool" where
  "survives w x =
     (case x of
        Clsact \<Rightarrow> True
      | Tc_Filter d \<Rightarrow> tc_detach w d \<noteq> 0 \<and> hook_destroy w d \<noteq> 0
      | _ \<Rightarrow> False)"

fun acquired :: "action list \<Rightarrow> resource multiset" where
  "acquired [] = {#}"
| "acquired (Got x # tr) = add_mset x (acquired tr)"
| "acquired (a # tr) = acquired tr"

lemma acquired_polls [simp]: "acquired (map Polled ps @ tr) = acquired tr"
  by (induction ps) simp_all

text \<open>The books of a packet tool balance up to that, and it flushes exactly the directions to which it
  has attached a filter.\<close>

definition tc_balanced :: "tc_world \<Rightarrow> action list \<Rightarrow> bool" where
  "tc_balanced w tr \<longleftrightarrow> books tr = (filter_mset (survives w) (acquired tr), {#}) \<and>
     (Flushed Ingress \<in> set tr \<longleftrightarrow> Got (Tc_Filter Ingress) \<in> set tr \<and> hook_destroy w Ingress = 0) \<and>
     (Flushed Egress \<in> set tr \<longleftrightarrow> Got (Tc_Filter Egress) \<in> set tr \<and> hook_destroy w Egress = 0)"

lemmas tc_defs = tc_balanced_def survives_def hook_actions_def tc_release_def image_iff

text \<open>The cleanup appends its releases; the code is that of the last error.\<close>

lemma cleanup_sels [simp]:
  "snd (pt_cleanup w opts skel attached rb y) = snd y @ pt_release w opts skel attached rb"
  "snd (pk_cleanup w opts' rb eg ing y) = snd y @ pk_release w opts' rb eg ing"
  "fst (pt_cleanup w opts skel attached rb y) = (if fst y < 0 then - fst y else 0)"
  "fst (pk_cleanup w opts' rb eg ing y) = (if fst y < 0 then - fst y else 0)"
  by (simp_all add: pt_cleanup_def pk_cleanup_def split: prod.split)

text \<open>The actions of a run of \<open>pktrace\<close> behind the creation of the files: a failure, or the loop.\<close>

lemma pt_run_actions:
  assumes "pktrace_run w opts tr = Some y"
  shows "(\<exists>(mid, skel, attached) \<in>
      set [([], False, False), ([Got Skel], True, False), ([Got Skel] @ hook_actions w Ingress, True, False),
           ([Got Skel] @ hook_actions w Ingress @ [Got (Tc_Filter Ingress)], True, True)].
      snd y = tr @ mid @ pt_release w opts skel attached False) \<or>
    (\<exists>ps. snd y = tr @ ([Got Skel] @ hook_actions w Ingress @ [Got (Tc_Filter Ingress), Got Ring]) @
      map Polled ps @ pt_release w opts True True True)"
proof (cases "skel_open w \<and> \<not> hook_fails w Ingress \<and> tc_attach w Ingress = 0 \<and> ring_new w")
  case True
  then obtain x where x: "poll_through_interrupts w 0
      (tr @ [Got Skel] @ hook_actions w Ingress @ [Got (Tc_Filter Ingress), Got Ring]) = Some x"
    and y: "y = pt_cleanup w opts True True True x"
    using assms by (auto simp: pktrace_run_def Let_def)
  then obtain ps where "snd x = (tr @ [Got Skel] @ hook_actions w Ingress @
      [Got (Tc_Filter Ingress), Got Ring]) @ map Polled ps"
    by (blast dest: poll_through_interrupts_run)
  then show ?thesis
    by (intro disjI2 exI [of _ ps]) (simp add: y)
next
  case False
  then show ?thesis
    using assms by (intro disjI1) (simp add: pktrace_run_def Let_def split: if_splits; clarsimp)
qed

lemma pt_files:
  assumes "pt_open_files w opts = Inr tr"
  shows "tr = (if log_path opts = None then [] else [Got Log_File]) @
    (if pcap_path opts = None then [] else [Got Pcap_File])"
  using assms by (auto simp: pt_open_files_def Let_def split: option.splits if_splits)

lemma pt_run_books:
  assumes "pktrace_run w opts tr = Some y" and "pt_open_files w opts = Inr tr"
  shows "tc_balanced w (snd y)"
  using pt_run_actions [OF assms(1)]
proof
  assume "\<exists>ps. snd y = tr @ ([Got Skel] @ hook_actions w Ingress @ [Got (Tc_Filter Ingress), Got Ring]) @
      map Polled ps @ pt_release w opts True True True"
  then obtain ps where y: "snd y = tr @ ([Got Skel] @ hook_actions w Ingress @ [Got (Tc_Filter Ingress), Got Ring]) @
      map Polled ps @ pt_release w opts True True True"
    by blast
  show ?thesis
    unfolding y pt_files [OF assms(2)] tc_defs pt_release_def
    by (cases "log_path opts"; cases "pcap_path opts"; cases "hook_create w Ingress = 0"; simp add: image_iff)
next
  assume "\<exists>(mid, skel, attached) \<in>
      set [([], False, False), ([Got Skel], True, False), ([Got Skel] @ hook_actions w Ingress, True, False),
           ([Got Skel] @ hook_actions w Ingress @ [Got (Tc_Filter Ingress)], True, True)].
      snd y = tr @ mid @ pt_release w opts skel attached False"
  then show ?thesis
    unfolding pt_files [OF assms(2)] tc_defs pt_release_def
    by (cases "log_path opts"; cases "pcap_path opts"; cases "hook_create w Ingress = 0"; simp)
       (elim disjE; simp)+
qed

text \<open>The same for \<open>pksniff\<close>, from the hooks on.\<close>

lemma pk_run_actions:
  assumes "pksniff_run w opts tr = Some y"
  shows "(\<exists>(mid, eg, ing) \<in>
      set [([], False, False), (hook_actions w Ingress, False, False),
           (hook_actions w Ingress @ [Got (Tc_Filter Ingress)], False, True),
           (hook_actions w Ingress @ [Got (Tc_Filter Ingress)] @ hook_actions w Egress, False, True),
           (hook_actions w Ingress @ [Got (Tc_Filter Ingress)] @ hook_actions w Egress @
              [Got (Tc_Filter Egress)], True, True)].
      snd y = tr @ mid @ pk_release w opts False eg ing) \<or>
    (\<exists>ps. snd y = tr @ (hook_actions w Ingress @ [Got (Tc_Filter Ingress)] @ hook_actions w Egress @
        [Got (Tc_Filter Egress), Got Ring, Got Screen]) @
      map Polled ps @ Freed Screen # pk_release w opts True True True)"
proof (cases "\<not> hook_fails w Ingress \<and> tc_attach w Ingress = 0 \<and> \<not> hook_fails w Egress \<and>
    tc_attach w Egress = 0 \<and> ring_new w")
  case True
  then obtain x where x: "poll_through_interrupts w 0
      (tr @ hook_actions w Ingress @ [Got (Tc_Filter Ingress)] @ hook_actions w Egress @
        [Got (Tc_Filter Egress), Got Ring, Got Screen]) = Some x"
    and y: "y = pk_cleanup w opts True True True (fst x, snd x @ [Freed Screen])"
    using assms by (auto simp: pksniff_run_def Let_def)
  then obtain ps where "snd x = (tr @ hook_actions w Ingress @ [Got (Tc_Filter Ingress)] @
      hook_actions w Egress @ [Got (Tc_Filter Egress), Got Ring, Got Screen]) @ map Polled ps"
    by (blast dest: poll_through_interrupts_run)
  then show ?thesis
    by (intro disjI2 exI [of _ ps]) (simp add: y)
next
  case False
  then show ?thesis
    using assms by (intro disjI1) (simp add: pksniff_run_def Let_def split: if_splits; clarsimp)
qed

lemma pk_run_books:
  assumes "pksniff_run w opts ((if out_path opts = None then [] else [Got Pcap_File]) @ [Got Skel]) = Some y"
  shows "tc_balanced w (snd y)"
  using pk_run_actions [OF assms]
proof
  let ?tr = "(if out_path opts = None then [] else [Got Pcap_File]) @ [Got Skel]"
  assume "\<exists>ps. snd y = ?tr @ (hook_actions w Ingress @ [Got (Tc_Filter Ingress)] @ hook_actions w Egress @
        [Got (Tc_Filter Egress), Got Ring, Got Screen]) @
      map Polled ps @ Freed Screen # pk_release w opts True True True"
  then obtain ps where y: "snd y = ?tr @ (hook_actions w Ingress @ [Got (Tc_Filter Ingress)] @
        hook_actions w Egress @ [Got (Tc_Filter Egress), Got Ring, Got Screen]) @
      map Polled ps @ Freed Screen # pk_release w opts True True True"
    by blast
  show ?thesis
    unfolding y tc_defs pk_release_def
    by (cases "out_path opts"; cases "hook_create w Ingress = 0"; cases "hook_create w Egress = 0";
        simp add: image_iff)
next
  let ?tr = "(if out_path opts = None then [] else [Got Pcap_File]) @ [Got Skel]"
  assume "\<exists>(mid, eg, ing) \<in>
      set [([], False, False), (hook_actions w Ingress, False, False),
           (hook_actions w Ingress @ [Got (Tc_Filter Ingress)], False, True),
           (hook_actions w Ingress @ [Got (Tc_Filter Ingress)] @ hook_actions w Egress, False, True),
           (hook_actions w Ingress @ [Got (Tc_Filter Ingress)] @ hook_actions w Egress @
              [Got (Tc_Filter Egress)], True, True)].
      snd y = ?tr @ mid @ pk_release w opts False eg ing"
  then show ?thesis
    unfolding tc_defs pk_release_def
    by (cases "out_path opts"; cases "hook_create w Ingress = 0"; cases "hook_create w Egress = 0"; simp)
       (elim disjE; simp)+
qed

text \<open>A run of \<open>main\<close> is such a run, or it ends before.\<close>

lemma pt_main_cases:
  assumes "pktrace_main options args w = Some y"
  obtains (early) "y = (1, [])" | (log) "y = (1, [Got Log_File, Freed Log_File])"
    | (run) opts tr where "pt_open_files w opts = Inr tr" "pktrace_run w opts tr = Some y"
proof -
  have "r = (1, []) \<or> r = (1, [Got Log_File, Freed Log_File])" if "pt_open_files w opts = Inl r" for opts r
    using that by (auto simp: pt_open_files_def Let_def split: option.splits if_splits)
  then show ?thesis
    using assms that
    by (fastforce simp: pktrace_main_def split: option.splits list.splits if_splits sum.splits)
qed

lemma pk_file:
  "pk_open_file w opts = Some tr \<Longrightarrow> tr = (if out_path opts = None then [] else [Got Pcap_File])"
  by (auto simp: pk_open_file_def split: option.splits if_splits)

lemma pk_main_cases:
  assumes "pksniff_main options args w = Some y"
  obtains (early) "y = (1, [])"
    | (load) "\<not> skel_open w \<or> skel_load w \<noteq> 0"
      "fst y = 1" "snd y \<in> {[], [Got Pcap_File], [Got Pcap_File, Got Skel, Freed Skel], [Got Skel, Freed Skel]}"
    | (run) opts tr where "skel_open w" "skel_load w = 0" "pk_open_file w opts = Some tr"
      "pksniff_run w opts (tr @ [Got Skel]) = Some y"
  using assms that
  by (auto simp: pksniff_main_def dest: pk_file split: option.splits list.splits if_splits)

text \<open>C9: what the packet tools leave behind, exactly. Of all they acquire on any path, \<open>pktrace\<close> keeps
  the queueing discipline, whenever it has created it, for the cleanup asks libbpf for one direction only,
  and its filter if neither removing it nor flushing the direction succeeds; and it
  releases nothing that it does not hold. The same holds of \<open>pksniff\<close> with its two directions, except that
  it also keeps the capture file open when the skeleton cannot be opened or loaded. And
  both flush the filters of a direction, those of other programs included, whenever they have attached
  one to it.\<close>

theorem packet_tools_release:
  assumes "pktrace_main options args w = Some (c, tr)"
    and "pksniff_main options' args' v = Some (c', tr')"
  shows "books tr = (filter_mset (survives w) (acquired tr), {#}) \<and>
    books tr' = (filter_mset (\<lambda>x. survives v x \<or>
        x = Pcap_File \<and> (\<not> skel_open v \<or> skel_load v \<noteq> 0)) (acquired tr'), {#}) \<and>
    map (\<lambda>d. Flushed d \<in> set tr) [Ingress, Egress] =
      [Got (Tc_Filter Ingress) \<in> set tr \<and> hook_destroy w Ingress = 0, False] \<and>
    map (\<lambda>d. Flushed d \<in> set tr') [Ingress, Egress] =
      map (\<lambda>d. Got (Tc_Filter d) \<in> set tr' \<and> hook_destroy v d = 0) [Ingress, Egress]"
proof -
  have pt: "tc_balanced w tr \<and> Got (Tc_Filter Egress) \<notin> set tr"
    using assms(1)
  proof (cases rule: pt_main_cases)
    case (run opts t)
    have "Got (Tc_Filter Egress) \<notin> set tr"
      using pt_run_actions [OF run(2)] pt_files [OF run(1)]
      by (auto simp: pt_release_def tc_release_def hook_actions_def split: if_splits)
    then show ?thesis using pt_run_books [OF run(2,1)] by simp
  qed (simp_all add: tc_defs)
  have pk: "tc_balanced v tr' \<and> \<not> (\<not> skel_open v \<or> skel_load v \<noteq> 0) \<or>
      tr' \<in> {[], [Got Pcap_File], [Got Pcap_File, Got Skel, Freed Skel], [Got Skel, Freed Skel]} \<and>
      ((\<not> skel_open v \<or> skel_load v \<noteq> 0) \<or> tr' = [])"
    using assms(2)
  proof (cases rule: pk_main_cases)
    case (run opts t)
    then show ?thesis using pk_run_books pk_file [OF run(3)] by fastforce
  qed auto
  have "books tr' = (filter_mset (\<lambda>x. survives v x \<or>
        x = Pcap_File \<and> (\<not> skel_open v \<or> skel_load v \<noteq> 0)) (acquired tr'), {#}) \<and>
    map (\<lambda>d. Flushed d \<in> set tr') [Ingress, Egress] =
      map (\<lambda>d. Got (Tc_Filter d) \<in> set tr' \<and> hook_destroy v d = 0) [Ingress, Egress]"
    using pk
  proof
    assume "tc_balanced v tr' \<and> \<not> (\<not> skel_open v \<or> skel_load v \<noteq> 0)"
    then show ?thesis by (simp add: tc_balanced_def)
  qed (auto simp: survives_def)
  then show ?thesis using pt by (simp add: tc_balanced_def)
qed

section \<open>Exit codes\<close>

text \<open>The results of the polls of a run.\<close>

fun polled :: "action list \<Rightarrow> int list" where
  "polled [] = []"
| "polled (Polled e # tr) = e # polled tr"
| "polled (a # tr) = polled tr"

lemma polled_append [simp]: "polled (tr @ tr') = polled tr @ polled tr'"
  by (induction tr rule: polled.induct) simp_all

lemma polled_map [simp]: "polled (map Polled ps) = ps"
  by (induction ps) simp_all

lemma polled_lists [simp]:
  "polled (cleanup_skel rb tr) = polled tr"
  "polled (hook_actions v d) = []"
  "polled (pt_release w opts skel attached rb) = []"
  "polled (pk_release w opts' rb eg ing) = []"
  by (simp_all add: cleanup_skel_def hook_actions_def pt_release_def pk_release_def tc_release_def)

definition bad_poll :: "int \<Rightarrow> bool" where "bad_poll e \<longleftrightarrow> e < 0 \<and> e \<noteq> - EINTR"

lemma exit_on_error_loop:
  assumes "map_option (exit_on_error True) (poll_until_error w 0 tr) = Some (c, tr')" and "polled tr = []"
  shows "c = (if \<exists>e \<in> set (polled tr'). bad_poll e then 1 else 0)"
  using assms
  by (auto simp: exit_on_error_def bad_poll_def dest!: poll_until_error_run)

lemma exit_success_code:
  "map_option (exit_success rb) r = Some (c, tr) \<Longrightarrow> c = 0"
  "exit_success rb y = (c, tr) \<Longrightarrow> c = 0"
  by (auto simp: exit_success_def split: prod.splits)

text \<open>The value that the packet tools make of the last error, and the result of creating a hook, where an
  existing one is no failure.\<close>

definition error_code :: "int \<Rightarrow> int" where "error_code e = (if e < 0 then - e else 0)"

definition hook_result :: "tc_world \<Rightarrow> direction \<Rightarrow> int" where
  "hook_result v d = (if hook_create v d = - EEXIST then 0 else hook_create v d)"

definition last_poll :: "int list \<Rightarrow> int" where
  "last_poll ps = (if ps = [] then 0 else last ps)"

text \<open>The code of a run from the first of these calls on: that of the first call that fails, or of the last poll.\<close>

definition first_error :: "int list \<Rightarrow> bool \<Rightarrow> int list \<Rightarrow> int" where
  "first_error calls ring ps =
     (case find (\<lambda>e. e \<noteq> 0) calls of
        Some e \<Rightarrow> error_code e
      | None \<Rightarrow> if ring then error_code (last_poll ps) else 0)"

lemma pktrace_run_code:
  assumes "pktrace_run v opts tr = Some y" and "polled tr = []"
  shows "fst y = (if skel_open v
    then first_error [hook_result v Ingress, tc_attach v Ingress] (ring_new v) (polled (snd y)) else 0)"
proof (cases "skel_open v \<and> \<not> hook_fails v Ingress \<and> tc_attach v Ingress = 0 \<and> ring_new v")
  case True
  then show ?thesis
    using assms
    by (auto simp: pktrace_run_def Let_def first_error_def error_code_def hook_result_def hook_fails_def
        last_poll_def dest!: poll_through_interrupts_run)
next
  case False
  then show ?thesis
    using assms
    by (auto simp: pktrace_run_def Let_def first_error_def error_code_def hook_result_def hook_fails_def
        EEXIST_def split: if_splits)
qed

lemma pksniff_run_code:
  assumes "pksniff_run v opts tr = Some y" and "polled tr = []"
  shows "fst y = first_error [hook_result v Ingress, tc_attach v Ingress, hook_result v Egress, tc_attach v Egress]
    (ring_new v) (polled (snd y))"
proof (cases "\<not> hook_fails v Ingress \<and> tc_attach v Ingress = 0 \<and> \<not> hook_fails v Egress \<and>
    tc_attach v Egress = 0 \<and> ring_new v")
  case True
  then show ?thesis
    using assms
    by (auto simp: pksniff_run_def Let_def first_error_def error_code_def hook_result_def hook_fails_def
        last_poll_def split: prod.splits dest!: poll_through_interrupts_run)
next
  case False
  then show ?thesis
    using assms
    by (auto simp: pksniff_run_def Let_def first_error_def error_code_def hook_result_def hook_fails_def
        EEXIST_def split: if_splits)
qed

text \<open>Whether one of the files that were asked for cannot be created.\<close>

definition file_fails :: "tc_world \<Rightarrow> string option list \<Rightarrow> bool" where
  "file_fails v paths \<longleftrightarrow> list_ex (\<lambda>p. case p of None \<Rightarrow> False | Some p \<Rightarrow> \<not> fopen_ok v p) paths"

lemma pt_open_files_code:
  "case pt_open_files v opts of
     Inl r \<Rightarrow> file_fails v [log_path opts, pcap_path opts] \<and> fst r = 1
   | Inr tr \<Rightarrow> \<not> file_fails v [log_path opts, pcap_path opts] \<and> polled tr = []"
  by (auto simp: pt_open_files_def file_fails_def Let_def split: option.split)

lemma pktrace_main_code:
  assumes "pktrace_main options args v = Some y"
  shows "fst y = (case pt_getopt options \<lparr>log_path = None, pcap_path = None, preview = 64\<rparr> of
      None \<Rightarrow> 1
    | Some opts \<Rightarrow>
        if args = [] \<or> if_nametoindex v (hd args) = 0 \<or> file_fails v [log_path opts, pcap_path opts] then 1
        else if \<not> skel_open v then 0
        else first_error [hook_result v Ingress, tc_attach v Ingress] (ring_new v) (polled (snd y)))"
proof (cases "pt_getopt options \<lparr>log_path = None, pcap_path = None, preview = 64\<rparr>")
  case None
  then show ?thesis using assms by (auto simp: pktrace_main_def)
next
  case (Some opts)
  then show ?thesis
    using assms pt_open_files_code [of v opts] pktrace_run_code [of v opts _ y]
    by (cases args; cases "pt_open_files v opts") (auto simp: pktrace_main_def split: if_splits)
qed

lemma pksniff_main_code:
  assumes "pksniff_main options args v = Some y"
  shows "fst y = (case pk_getopt options \<lparr>btf_path = None, out_path = None, verbose = False\<rparr> of
      None \<Rightarrow> 1
    | Some opts \<Rightarrow>
        if args = [] \<or> if_nametoindex v (hd args) = 0 \<or> file_fails v [out_path opts] \<or>
          \<not> skel_open v \<or> skel_load v \<noteq> 0 then 1
        else first_error
          [hook_result v Ingress, tc_attach v Ingress, hook_result v Egress, tc_attach v Egress]
          (ring_new v) (polled (snd y)))"
proof (cases "pk_getopt options \<lparr>btf_path = None, out_path = None, verbose = False\<rparr>")
  case None
  then show ?thesis using assms by (auto simp: pksniff_main_def)
next
  case (Some opts)
  have opened: "pk_open_file v opts = None \<longleftrightarrow> file_fails v [out_path opts]"
    "pk_open_file v opts = Some tr \<Longrightarrow> polled tr = []" for tr
    by (auto simp: pk_open_file_def file_fails_def split: option.splits if_splits)
  show ?thesis
    using assms Some opened pksniff_run_code [of v opts _ y]
    by (cases args; cases "pk_open_file v opts") (auto simp: pksniff_main_def split: if_splits)
qed

text \<open>C17: the exit code of every tool on every path that returns.
  \<open>execguard\<close> exits with 1 exactly when opening, loading, attaching, the
  ring buffer or a poll fails, an interrupted poll not counting. \<open>privwatch\<close> does the same, and so does
  \<open>procwatch\<close>, which opens and loads in one call, but both exit
  with 0 when the ring buffer cannot be created. \<open>filewatch\<close>, its broad variant and the five camera tools without
  a configuration exit with 0 whatever fails once the skeleton is open; the identity tools also need
  the camera server to be found. \<open>pktrace\<close> and \<open>pksniff\<close> exit with 1 for bad options, interface or files
  (\<open>pksniff\<close> also for a skeleton that cannot be opened or loaded, where \<open>pktrace\<close> exits with 0), with the
  negated result of the first call of \<open>bpf_tc_hook_create\<close> or \<open>bpf_tc_attach\<close> that fails, an existing hook
  not counting, with 0 when the ring buffer cannot be created, and else with the negated last result of
  the polls: with 4 when a signal interrupts the last one.\<close>

theorem exit_codes:
  "(case execguard_main w of None \<Rightarrow> True | Some (c, tr) \<Rightarrow>
      c = (if \<not> skel_open w \<or> skel_load w < 0 \<or>
         skel_load w = 0 \<and> (skel_attach w < 0 \<or> skel_attach w = 0 \<and> \<not> ring_new w) \<or>
         (\<exists>e \<in> set (polled tr). e < 0 \<and> e \<noteq> -4) then 1 else 0)) \<and>
   (case privwatch_main w of None \<Rightarrow> True | Some (c, tr) \<Rightarrow>
      c = (if \<not> skel_open w \<or> skel_load w < 0 \<or> skel_load w = 0 \<and> skel_attach w < 0 \<or>
         (\<exists>e \<in> set (polled tr). e < 0 \<and> e \<noteq> -4) then 1 else 0)) \<and>
   (case procwatch_main w of None \<Rightarrow> True | Some (c, tr) \<Rightarrow>
      c = (if \<not> skel_open w \<or> skel_attach w < 0 \<or>
         (\<exists>e \<in> set (polled tr). e < 0 \<and> e \<noteq> -4) then 1 else 0)) \<and>
   list_all (\<lambda>main. case main w of None \<Rightarrow> True | Some (c, tr) \<Rightarrow> c = (if skel_open w then 0 else 1))
     [filewatch_main getpid, filewatch_broad_main getpid, cam_main, cam_control_main, cam_buffer_main,
      cam_flow_main, cam_data_main] \<and>
   list_all (\<lambda>main. case main w of None \<Rightarrow> True | Some (c, tr) \<Rightarrow>
       c = (if 0 \<le> find_pid_by_cmdline files dir ''cameraserver'' \<and> skel_open w then 0 else 1))
     [cam_identity_main files dir, cam_v2_main files dir] \<and>
   (case pktrace_main options args v of None \<Rightarrow> True | Some (c, tr) \<Rightarrow>
      c = (case pt_getopt options \<lparr>log_path = None, pcap_path = None, preview = 64\<rparr> of
        None \<Rightarrow> 1
      | Some opts \<Rightarrow>
          if args = [] \<or> if_nametoindex v (hd args) = 0 \<or> file_fails v [log_path opts, pcap_path opts] then 1
          else if \<not> skel_open v then 0
          else first_error [hook_result v Ingress, tc_attach v Ingress] (ring_new v) (polled tr))) \<and>
   (case pksniff_main options' args v of None \<Rightarrow> True | Some (c, tr) \<Rightarrow>
      c = (case pk_getopt options' \<lparr>btf_path = None, out_path = None, verbose = False\<rparr> of
        None \<Rightarrow> 1
      | Some opts \<Rightarrow>
          if args = [] \<or> if_nametoindex v (hd args) = 0 \<or> file_fails v [out_path opts] \<or>
            \<not> skel_open v \<or> skel_load v \<noteq> 0 then 1
          else first_error
            [hook_result v Ingress, tc_attach v Ingress, hook_result v Egress, tc_attach v Egress]
            (ring_new v) (polled tr)))"
proof (intro conjI)
  note loop = exit_on_error_loop [of w "[Got Skel, Attached, Got Ring]"]
  show "case execguard_main w of None \<Rightarrow> True | Some (c, tr) \<Rightarrow>
      c = (if \<not> skel_open w \<or> skel_load w < 0 \<or>
         skel_load w = 0 \<and> (skel_attach w < 0 \<or> skel_attach w = 0 \<and> \<not> ring_new w) \<or>
         (\<exists>e \<in> set (polled tr). e < 0 \<and> e \<noteq> -4) then 1 else 0)"
    using loop
    by (auto simp: execguard_main_def exit_on_error_def bad_poll_def EINTR_def split: option.split if_splits)
  show "case privwatch_main w of None \<Rightarrow> True | Some (c, tr) \<Rightarrow>
      c = (if \<not> skel_open w \<or> skel_load w < 0 \<or> skel_load w = 0 \<and> skel_attach w < 0 \<or>
         (\<exists>e \<in> set (polled tr). e < 0 \<and> e \<noteq> -4) then 1 else 0)"
    using loop
    by (auto simp: privwatch_main_def exit_on_error_def bad_poll_def EINTR_def split: option.split if_splits)
  show "case procwatch_main w of None \<Rightarrow> True | Some (c, tr) \<Rightarrow>
      c = (if \<not> skel_open w \<or> skel_attach w < 0 \<or>
         (\<exists>e \<in> set (polled tr). e < 0 \<and> e \<noteq> -4) then 1 else 0)"
    using loop
    by (auto simp: procwatch_main_def exit_on_error_def bad_poll_def EINTR_def split: option.split if_splits)
  show "list_all (\<lambda>main. case main w of None \<Rightarrow> True | Some (c, tr) \<Rightarrow> c = (if skel_open w then 0 else 1))
     [filewatch_main getpid, filewatch_broad_main getpid, cam_main, cam_control_main, cam_buffer_main,
      cam_flow_main, cam_data_main]"
    by (auto simp: main_defs exit_success_def Let_def split: option.split prod.splits)
  show "list_all (\<lambda>main. case main w of None \<Rightarrow> True | Some (c, tr) \<Rightarrow>
       c = (if 0 \<le> find_pid_by_cmdline files dir ''cameraserver'' \<and> skel_open w then 0 else 1))
     [cam_identity_main files dir, cam_v2_main files dir]"
    by (auto simp: main_defs exit_success_def Let_def split: option.split prod.splits)
qed (use pktrace_main_code [of options args v] pksniff_main_code [of options' args v] in
  \<open>auto split: option.splits\<close>)

section \<open>The configuration map\<close>

text \<open>The values that the entry 0 of the map has while the probes run: it is \<open>v\<close> now, and the
  probes run already or not.\<close>

fun served :: "u32 \<Rightarrow> bool \<Rightarrow> action list \<Rightarrow> u32 list" where
  "served v attached [] = []"
| "served v attached (Map_Set v' # tr) = (if attached then [v'] else []) @ served v' attached tr"
| "served v attached (Attached # tr) = v # served v True tr"
| "served v attached (a # tr) = served v attached tr"

lemma served_polls [simp]: "served v attached (map Polled ps @ tr) = served v attached tr"
  by (induction ps) simp_all

lemma filewatch_served:
  assumes "filewatch_main getpid w = Some y"
  shows "set (served 0 False (snd y)) \<subseteq> {getpid}"
  using assms
  by (auto simp: filewatch_main_def run_simps split: if_splits
      dest!: poll_until_negative_run)

lemma camera_served:
  assumes "cam_identity_main files dir w = Some y" and "v \<in> set (served 0 False (snd y))"
  shows "0 \<le> find_pid_by_cmdline files dir ''cameraserver'' \<and>
    v = word_of_int (find_pid_by_cmdline files dir ''cameraserver'')"
  using assms
  by (auto simp: cam_identity_main_def run_simps Let_def split: if_splits
      dest!: poll_through_interrupts_run)

text \<open>C10: the maps are set before the probes run and stay so: while the probes of \<open>filewatch\<close> run,
  no event of the tool itself is reported, whatever file it touches; and while the probes of
  \<open>cam_identity\<close> and \<open>cam_v2\<close> run, they compare with the process number of the camera server that
  \<open>/proc\<close> showed, as the initial states of their models say.\<close>

theorem setup_before_attach:
  assumes "filewatch_main (cur_pid env) w = Some (c, tr)"
    and "cam_identity_main files dir w = Some (c', tr')" and "cam_v2_main files dir w = Some (c'', tr'')"
  shows "list_all (\<lambda>v. fw_submit_event env (array_map1 v) de op = []) (served 0 False tr) \<and>
    list_all (\<lambda>v. 0 \<le> find_pid_by_cmdline files dir ''cameraserver'' \<and>
        array_map1 v = id_config (id_start (word_of_int (find_pid_by_cmdline files dir ''cameraserver''))))
      (served 0 False tr') \<and>
    list_all (\<lambda>v. array_map1 v =
        config_map (cv_start (word_of_int (find_pid_by_cmdline files dir ''cameraserver''))))
      (served 0 False tr'')"
proof (intro conjI)
  have "fw_submit_event env (array_map1 (cur_pid env)) de op = []"
    by (simp add: fw_submit_event_def should_ignore_self_def array_map1_def split: option.split)
  then show "list_all (\<lambda>v. fw_submit_event env (array_map1 v) de op = []) (served 0 False tr)"
    using filewatch_served [OF assms(1)] by (auto simp: list_all_iff)
  show "list_all (\<lambda>v. 0 \<le> find_pid_by_cmdline files dir ''cameraserver'' \<and>
        array_map1 v = id_config (id_start (word_of_int (find_pid_by_cmdline files dir ''cameraserver''))))
      (served 0 False tr')"
    using camera_served [OF assms(2)] by (auto simp: list_all_iff id_start_def)
  show "list_all (\<lambda>v. array_map1 v =
        config_map (cv_start (word_of_int (find_pid_by_cmdline files dir ''cameraserver''))))
      (served 0 False tr'')"
    using camera_served [OF assms(3) [unfolded cam_v2_main_def]] by (auto simp: list_all_iff cv_start_def)
qed

section \<open>Sample runs\<close>

text \<open>A system in which everything succeeds but the hooks exist already; the first poll is
  interrupted, and the flag is set before the third test.\<close>

definition sample_tc :: tc_world where
  "sample_tc =
     \<lparr>skel_open = True, skel_load = 0, map_update = 0, skel_attach = 0, ring_new = True,
      poll = (\<lambda>k. if k = 0 then 1 else - EINTR), stopped = (\<lambda>k. 2 \<le> k),
      if_nametoindex = (\<lambda>_. 2), fopen_ok = (\<lambda>_. True),
      hook_create = (\<lambda>d. if d = Ingress then - EEXIST else 0), tc_attach = (\<lambda>d. if d = Ingress then 0 else -22),
      tc_detach = (\<lambda>_. -22), hook_destroy = (\<lambda>_. 0)\<rparr>"

definition sample_bpf :: libbpf where
  "sample_bpf =
     \<lparr>skel_open = True, skel_load = 0, map_update = 0, skel_attach = 0, ring_new = True,
      poll = (\<lambda>k. if k = 0 then 1 else - EINTR), stopped = (\<lambda>k. 2 \<le> k)\<rparr>"

lemma sample_tc_sels:
  "skel_open sample_tc" "skel_load sample_tc = 0" "ring_new sample_tc" "if_nametoindex sample_tc ifname = 2"
  "fopen_ok sample_tc path" "hook_destroy sample_tc d = 0" "hook_result sample_tc d = 0"
  "tc_attach sample_tc Ingress = 0"
  by (simp_all add: sample_tc_def hook_result_def)

lemmas sample_loops =
  poll_until_error_def poll_until_negative_def poll_through_interrupts_def poll_loop.simps
  numeral_2_eq_2 EINTR_def EEXIST_def

lemma sample_pktrace:
  "pktrace_main [(CHR ''p'', ''out.pcap'')] [''wlan0''] sample_tc =
     Some (4, [Got Pcap_File, Got Skel, Got (Tc_Filter Ingress), Got Ring, Polled 1, Polled (-4), Freed Ring,
       Flushed Ingress, Freed Pcap_File, Freed Skel])"
  by (simp add: pktrace_main_def pt_open_files_def pktrace_run_def sample_tc_def Let_def hook_fails_def
      hook_actions_def pt_cleanup_def pt_release_def tc_release_def sample_loops)

lemma sample_pksniff:
  "pksniff_main [(CHR ''o'', ''out.pcap'')] [''wlan0''] sample_tc =
     Some (22, [Got Pcap_File, Got Skel, Got (Tc_Filter Ingress), Got Clsact,
       Flushed Ingress, Freed Pcap_File, Freed Skel])"
  by (simp add: pksniff_main_def pk_open_file_def pksniff_run_def sample_tc_def Let_def hook_fails_def
      hook_actions_def pk_cleanup_def pk_release_def tc_release_def sample_loops)

lemma tools_return_witness:
  "list_all (\<lambda>main. main sample_bpf \<noteq> None) (bpf_tools 42 Map.empty None) \<and>
   pktrace_main [(CHR ''p'', ''out.pcap'')] [''wlan0''] sample_tc \<noteq> None \<and>
   pksniff_main [(CHR ''o'', ''out.pcap'')] [''wlan0''] sample_tc \<noteq> None"
  using tools_return [of sample_bpf 2 sample_tc] by (simp add: sample_bpf_def sample_tc_def del: not_None_eq)

lemma packet_tools_release_witness:
  "\<exists>c tr c' tr'. pktrace_main [(CHR ''p'', ''out.pcap'')] [''wlan0''] sample_tc = Some (c, tr) \<and>
     pksniff_main [(CHR ''o'', ''out.pcap'')] [''wlan0''] sample_tc = Some (c', tr') \<and>
     books tr = ({#}, {#}) \<and> books tr' = ({#Clsact#}, {#})"
  using packet_tools_release [OF sample_pktrace sample_pksniff]
  by (simp add: sample_pktrace sample_pksniff survives_def sample_tc_sels)

lemma sample_tools:
  "execguard_main sample_bpf =
     Some (0, [Got Skel, Attached, Got Ring, Polled 1, Polled (-4), Freed Ring, Freed Skel])"
  "privwatch_main sample_bpf =
     Some (0, [Got Skel, Attached, Got Ring, Polled 1, Polled (-4), Freed Ring, Freed Skel])"
  "filewatch_main 42 sample_bpf =
     Some (0, [Got Skel, Map_Set 42, Attached, Got Ring, Polled 1, Polled (-4), Freed Ring, Freed Skel])"
  by (simp_all add: execguard_main_def privwatch_main_def filewatch_main_def sample_bpf_def
      run_simps sample_loops)

lemma exit_codes_witness:
  "\<exists>c tr. pktrace_main [(CHR ''p'', ''out.pcap'')] [''wlan0''] sample_tc = Some (c, tr) \<and>
     c = error_code (last_poll (polled tr)) \<and> c = 4"
  using exit_codes [where w = sample_bpf and v = sample_tc and args = "[''wlan0'']"
      and options = "[(CHR ''p'', ''out.pcap'')]"]
  by (simp add: sample_pktrace sample_tc_sels file_fails_def first_error_def error_code_def last_poll_def)

definition sample_proc :: "string \<rightharpoonup> char list" where
  "sample_proc = [''/proc/7/cmdline'' \<mapsto> ''cameraserver'' @ [NUL]]"

lemma sample_camera_pid: "find_pid_by_cmdline sample_proc (Some [(''self'', True), (''7'', True)]) ''cameraserver'' = 7"
  unfolding sample_proc_def by code_simp

lemma sample_camera:
  "cam_identity_main sample_proc (Some [(''self'', True), (''7'', True)]) sample_bpf =
     Some (0, [Got Skel, Map_Set 7, Attached, Got Ring, Polled 1, Polled (-4), Freed Ring, Freed Skel])"
  "cam_v2_main sample_proc (Some [(''self'', True), (''7'', True)]) sample_bpf =
     Some (0, [Got Skel, Map_Set 7, Attached, Got Ring, Polled 1, Polled (-4), Freed Ring, Freed Skel])"
  by (simp_all add: cam_v2_main_def cam_identity_main_def sample_camera_pid sample_bpf_def
      run_simps sample_loops)

lemma setup_before_attach_witness:
  "fw_submit_event fw_sample_env (array_map1 42) (Some fw_sample_dentry) 1 = [] \<and>
   array_map1 7 = id_config (id_start 7)"
proof -
  have pid: "cur_pid fw_sample_env = 42" by code_simp
  have "filewatch_main (cur_pid fw_sample_env) sample_bpf =
     Some (0, [Got Skel, Map_Set 42, Attached, Got Ring, Polled 1, Polled (-4), Freed Ring, Freed Skel])"
    by (simp add: pid sample_tools)
  from setup_before_attach [OF this sample_camera, of "Some fw_sample_dentry" 1] show ?thesis
    by (simp add: sample_camera_pid)
qed

end
