(* ===== verification/Spec2Isabelle.thy ===== *)
theory Spec2Isabelle
  imports Execguard Privwatch Filewatch Procwatch Pktrace Pksniff_Loop Cam_V2_Report Cam_Identity Cam_Flow
    Loader
begin

text \<open>
  A model of the eBPF utility tools for Android kernels and the proofs that go with it.

  The repository holds fourteen small tools that share one architecture. A kernel half
  (\<open>*.bpf.c\<close>) runs at tracepoints, kernel probes or in the traffic control hook; it keeps maps,
  decides which happenings matter and submits fixed-size event records to a ring buffer. A user-space half
  (\<open>*.c\<close>) loads it, polls the ring buffer and turns every record into lines of text, into
  capture files or, for \<open>pksniff\<close>, into a screen. The two halves meet in the event record only.

  \<^bold>\<open>Theories.\<close>

  \<^item> Prelude: integer widths, byte order, bounds-checked stores, bounded suffixes of lists. C_Strings: the
    string functions of the C library. Bpf_Env: the results of kernel helpers as a record, maps, runs
    of a probe over a list of invocations, and four interfaces stated as locales: \<open>probe_guarantee\<close>
    (an invariant of the maps that guarantees a property of all events), \<open>dedup_window\<close> (reports of
    one key are a window apart), \<open>bounded_log\<close> (a ring is the last entries of a log) and
    \<open>simulation\<close>. Packet: frames, packet buffers and the locale \<open>skb_access\<close>; Pcap: capture
    files and a reader for them.
  \<^item> Execguard, Privwatch, Procwatch, Filewatch (with \<open>filewatch_broad\<close>): both halves of these
    tools, under \<open>execguard/\<close>, \<open>priviwatch/\<close>, \<open>procwatch/\<close>, \<open>filewatch/\<close> and
    \<open>filewatch_broad/\<close>.
  \<^item> Pktrace: both halves of \<open>pktrace_v2/\<close>.
  \<^item> Pksniff_Bpf (the traffic control programs), Pksniff_Hints (what their application hints
    show), Pksniff_Path (the packet path as a whole), Pksniff_Filter (filter language and line editor),
    Pksniff_Ui (globals, ring, statistics, drawing and keys), Pksniff_View (what the user sees),
    Pksniff_Loop (windows and the main loop): \<open>pksniff/Pksniff.bpf.c\<close> and \<open>pksniff/Pksniff.c\<close>.
  \<^item> Cam_Trace (records and process names), Cam_V2 and Cam_V2_Report (\<open>cam_v2/\<close>), Cam_Identity,
    Cam_Flow and Cam_Suite (\<open>cam_ident/\<close> and \<open>cam_data_tracking/\<close>): the camera tools.
  \<^item> Loader: the function \<open>main\<close> of every tool.

  Every function of the C sources that computes something is a definition with its name, prefixed
  where two tools use the same one (\<open>xg_\<close>, \<open>pv_\<close>, \<open>pw_\<close>, \<open>fw_\<close>, \<open>fwb_\<close>,
  \<open>pt_\<close>, \<open>pk_\<close>, \<open>cv_\<close>, \<open>id_\<close>, \<open>ci_\<close>, \<open>cc_\<close>, \<open>cb_\<close>, \<open>cf_\<close>,
  \<open>cd_\<close>). Integers have their width as words. Arrays are lists; a store outside of one is
  \<open>None\<close>, so memory safety is the statement that a result is \<open>Some\<close>. Globals and maps are
  records that the operations return updated. A store into memory that is mapped for reading only and a read
  behind an unterminated array by \<open>printf\<close> are \<open>None\<close> as well. What an event is printed as is a
  list of characters.

  \<^bold>\<open>What is proved.\<close>

  \<^item> Memory safety and invariants: no sequence of packets makes the programs of \<open>pksniff\<close> store outside
    their arrays, the array of captured bytes included; no sequence of packets, keys and terminal sizes makes its main loop do so or lose the
    selection; the normaliser of command lines and the hex dump stay inside their arrays.
  \<^item> Refinement: the packet ring shows the matching ones among the last 8192 packets; the line editor with its
    \<open>memmove\<close> calls is an editor on two strings; the attribution of camera sessions refines the list
    of calls that were not suppressed.
  \<^item> Equivalence: \<open>filewatch\<close> is \<open>filewatch_broad\<close> on regular files; \<open>pksniff\<close> and
    \<open>pktrace\<close> agree on the headers of a packet both report.
  \<^item> Round trips: capture files read back as what was captured, the filter summary parses to the
    filter, the hexadecimal preview decodes to the payload, encoded names and hellos are shown as hints.
  \<^item> Exactness: which execs are counted and how, which credentials changes, opens and binder calls are
    reported, what a latency is, which lines \<open>filewatch\<close> prints for its four operations, which capabilities
    a change is labelled with, what is printed behind a frame event, which command line is printed, with the cases
    in which stale bytes remain, in which no terminator is left, and in which the record cannot be written.
  \<^item> The loaders: a signal ends every tool; every run of the tools without a network
    interface releases what it acquired; exactly what the packet tools leave behind (the queueing discipline,
    a capture file) and which filters they flush; the configuration maps are set before the probes
    run; the exit code of each of the fourteen tools on every path.

  \<^bold>\<open>Parameters and hypotheses.\<close> The kernel decides the results of helper calls, the contents of reserved
  records (which are not cleared), whether a map is full, and the contents of kernel objects: they are the
  record \<open>probe_env\<close> and the records of task, credentials, inode and packet buffer, and theorems hold for
  all of them. Packet buffers satisfy the documented contract of \<open>bpf_skb_load_bytes\<close>
  (\<open>skb_holds\<close>). The answers of libbpf are the record \<open>libbpf\<close>, with those for traffic control
  in \<open>tc_world\<close>; what a successful call does is what libbpf documents (\<open>bpf_tc_hook_destroy\<close> for
  one direction flushes its filters and keeps the queueing discipline). Whether the memory of the ring buffer may be
  written is a parameter of the printer of \<open>procwatch\<close>; libbpf maps it for reading only. The files of \<open>/proc\<close> and of
  the \<open>dumpsys\<close> pipeline are a map, clock readings are arguments, and the text of floating point numbers
  is a parameter.

  \<^bold>\<open>Bounds.\<close> The loops the verifier unrolls (eight labels and four characters of a name, sixteen
  extensions, sixteen characters of a server name, sixteen chunks of sixteen bytes) have their bound as the fuel of
  the recursion, exactly as in the source, so no behaviour is cut off. Loops over arrays recurse
  over their length. The polling loop may run for ever and is a partial function; that it ends is a
  theorem. The hex dump recurses on the rows left.

  \<^bold>\<open>Not modelled.\<close> Concurrency: each invocation of a program and each critical section of
  \<open>pksniff\<close> is atomic; the increments of \<open>execguard\<close> on two processors can be lost, which the
  sequential model does not show. Colours, cursor movement and other calls of ncurses, signal
  registration, usage texts and messages on the standard error stream. The vendored headers and JavaScript packages, the
  build files and the documents.
\<close>

end
